theory Spec2Isabelle
  imports Complex_Main
begin

section \<open>JavaScript strings\<close>

text \<open>
  A JavaScript string is modelled as a \<open>string\<close>: a list of code units, here the code
  units below 256. \<open>length\<close> is the JavaScript \<open>.length\<close>. Case mapping is that of
  JavaScript on these code units, but for the two whose upper-case form is a code unit
  beyond 255.
\<close>

definition is_space :: "char \<Rightarrow> bool" where
  \<comment> \<open>the code units below 256 that the regular expression class \<open>\s\<close> and \<open>trim()\<close> accept\<close>
  "is_space c \<longleftrightarrow>
     c = CHR 0x09 \<or> c = CHR 0x0A \<or> c = CHR 0x0B \<or> c = CHR 0x0C \<or> c = CHR 0x0D \<or>
     c = CHR 0x20 \<or> c = CHR 0xA0"

definition trim :: "string \<Rightarrow> string" where
  "trim s = rev (dropWhile is_space (rev (dropWhile is_space s)))"

fun join :: "string \<Rightarrow> string list \<Rightarrow> string" where
  "join sep [] = []"
| "join sep [x] = x"
| "join sep (x # y # ys) = x @ sep @ join sep (y # ys)"

fun digits_of :: "nat \<Rightarrow> string" where
  "digits_of n =
     (if n < 10 then [char_of (48 + n)]
      else digits_of (n div 10) @ [char_of (48 + n mod 10)])"

declare digits_of.simps [simp del]

section \<open>The chunker (utils/knowledge.js)\<close>

definition DEFAULT_CHUNK_SIZE :: int where
  \<comment> \<open>\<open>Number.parseInt(process.env.FLOPPY_CHUNK_SIZE || '900', 10)\<close>, the variable unset\<close>
  "DEFAULT_CHUNK_SIZE = 900"

definition DEFAULT_MIN_CHUNK_SIZE :: int where
  \<comment> \<open>\<open>Number.parseInt(process.env.FLOPPY_MIN_CHUNK_SIZE || '280', 10)\<close>, the variable unset\<close>
  "DEFAULT_MIN_CHUNK_SIZE = 280"

subsection \<open>normalizeWhitespace\<close>

definition replace_nul :: "string \<Rightarrow> string" where
  \<comment> \<open>\<open>.replace(/\u0000/g, ' ')\<close>\<close>
  "replace_nul s = map (\<lambda>c. if c = CHR 0x00 then CHR 0x20 else c) s"

fun replace_crlf :: "string \<Rightarrow> string" where
  \<comment> \<open>\<open>.replace(/\r\n?/g, '\n')\<close>\<close>
  "replace_crlf [] = []"
| "replace_crlf [c] = (if c = CHR 0x0D then [CHR 0x0A] else [c])"
| "replace_crlf (c # d # ds) =
     (if c = CHR 0x0D then
        (if d = CHR 0x0A then CHR 0x0A # replace_crlf ds else CHR 0x0A # replace_crlf (d # ds))
      else c # replace_crlf (d # ds))"

definition is_tab_ff_vt :: "char \<Rightarrow> bool" where
  "is_tab_ff_vt c \<longleftrightarrow> c = CHR 0x09 \<or> c = CHR 0x0C \<or> c = CHR 0x0B"

function collapse_tabs :: "string \<Rightarrow> string" where
  \<comment> \<open>\<open>.replace(/[\t\f\v]+/g, ' ')\<close>\<close>
  "collapse_tabs [] = []"
| "collapse_tabs (c # cs) =
     (if is_tab_ff_vt c then CHR 0x20 # collapse_tabs (dropWhile is_tab_ff_vt cs)
      else c # collapse_tabs cs)"
  by pat_completeness auto
termination
  by (relation "measure length") (auto simp: length_dropWhile_le less_Suc_eq_le)

definition replace_nbsp :: "string \<Rightarrow> string" where
  \<comment> \<open>\<open>.replace(/\u00a0/g, ' ')\<close>\<close>
  "replace_nbsp s = map (\<lambda>c. if c = CHR 0xA0 then CHR 0x20 else c) s"

fun split_lines :: "string \<Rightarrow> string list" where
  \<comment> \<open>\<open>.split('\n')\<close>: the pieces between line feeds, the empty ones kept\<close>
  "split_lines [] = [[]]"
| "split_lines (c # cs) =
     (if c = CHR 0x0A then [] # split_lines cs
      else (case split_lines cs of [] \<Rightarrow> [[c]] | l # ls \<Rightarrow> (c # l) # ls))"

function collapse_newlines :: "string \<Rightarrow> string" where
  \<comment> \<open>\<open>.replace(/\n{3,}/g, '\n\n')\<close>\<close>
  "collapse_newlines [] = []"
| "collapse_newlines (c # cs) =
     (if c = CHR 0x0A then
        (let run = c # takeWhile (\<lambda>d. d = CHR 0x0A) cs;
             rest = dropWhile (\<lambda>d. d = CHR 0x0A) cs
         in (if 3 \<le> length run then [CHR 0x0A, CHR 0x0A] else run) @ collapse_newlines rest)
      else c # collapse_newlines cs)"
  by pat_completeness auto
termination
  by (relation "measure length") (auto simp: length_dropWhile_le less_Suc_eq_le)

definition normalizeWhitespace :: "string \<Rightarrow> string" where
  "normalizeWhitespace input =
     (if input = [] then []
      else trim (collapse_newlines (join [CHR 0x0A] (map trim (split_lines
             (replace_nbsp (collapse_tabs (replace_crlf (replace_nul input)))))))))"

subsection \<open>chunkText\<close>

function split_ws :: "string \<Rightarrow> string list" where
  \<comment> \<open>\<open>.split(/\s+/)\<close>: the pieces between runs of white space, the empty ones kept\<close>
  "split_ws s =
     (let piece = takeWhile (\<lambda>c. \<not> is_space c) s;
          rest = dropWhile (\<lambda>c. \<not> is_space c) s
      in if rest = [] then [piece] else piece # split_ws (dropWhile is_space rest))"
  by pat_completeness auto
termination
proof (relation "measure length", goal_cases)
  case 1
  show ?case by simp
next
  case (2 s piece rest)
  then have ne: "rest \<noteq> []" and r: "rest = dropWhile (\<lambda>c. \<not> is_space c) s"
    by simp_all
  from ne r have "is_space (hd rest)"
    using hd_dropWhile [of "\<lambda>c. \<not> is_space c" s] by simp
  with ne have "dropWhile is_space rest = dropWhile is_space (tl rest)"
    by (cases rest) simp_all
  then have "length (dropWhile is_space rest) \<le> length (tl rest)"
    using length_dropWhile_le [of is_space "tl rest"] by simp
  also from ne have "\<dots> < length rest"
    by (cases rest) simp_all
  also from r have "\<dots> \<le> length s"
    by (simp add: length_dropWhile_le)
  finally show ?case by simp
qed

declare split_ws.simps [simp del]

definition text_words :: "string \<Rightarrow> string list" where
  \<comment> \<open>\<open>normalized.split(/\s+/).filter(Boolean)\<close>\<close>
  "text_words normalized = filter (\<lambda>w. w \<noteq> []) (split_ws normalized)"

record chunk_options =
  opt_chunkSize :: "int option"
    \<comment> \<open>\<open>Number.parseInt(options.chunkSize, 10)\<close>, \<open>None\<close> for \<open>NaN\<close>\<close>
  opt_minChunkSize :: "int option"
    \<comment> \<open>\<open>Number.parseInt(options.minChunkSize, 10)\<close>, \<open>None\<close> for \<open>NaN\<close>\<close>
  opt_segments :: "string list option"
    \<comment> \<open>\<open>options.segments\<close> when it is an array\<close>
  opt_baseId :: string
    \<comment> \<open>\<open>options.baseId\<close>, empty when absent\<close>
  opt_useStableIds :: bool

definition or_default :: "int option \<Rightarrow> int \<Rightarrow> int" where
  \<comment> \<open>\<open>parsed || fallback\<close>: \<open>NaN\<close> and \<open>0\<close> are falsy\<close>
  "or_default parsed fallback =
     (case parsed of None \<Rightarrow> fallback | Some n \<Rightarrow> if n = 0 then fallback else n)"

definition chunkSize_of :: "chunk_options \<Rightarrow> int" where
  "chunkSize_of options = or_default (opt_chunkSize options) DEFAULT_CHUNK_SIZE"

definition minChunkSize_of :: "chunk_options \<Rightarrow> int" where
  "minChunkSize_of options = or_default (opt_minChunkSize options) DEFAULT_MIN_CHUNK_SIZE"

record packer =
  chunks :: "string list"
  current :: "string list"
  currentLength :: int

definition pushCurrent :: "packer \<Rightarrow> packer" where
  "pushCurrent st =
     (if current st = [] then st
      else
        (let joined = trim (join [CHR 0x20] (current st))
         in \<lparr> chunks = (if joined \<noteq> [] then chunks st @ [joined] else chunks st),
              current = [], currentLength = 0 \<rparr>))"

definition pack_word :: "int \<Rightarrow> packer \<Rightarrow> string \<Rightarrow> packer" where
  \<comment> \<open>one round of \<open>for (const word of words)\<close>; \<open>addition\<close> is computed before the flush\<close>
  "pack_word chunkSize st word =
     (let addition = int (length word) + (if currentLength st \<noteq> 0 then 1 else 0);
          st' = (if currentLength st + addition > chunkSize \<and> current st \<noteq> []
                 then pushCurrent st else st)
      in st'\<lparr> current := current st' @ [word],
              currentLength := currentLength st' + addition \<rparr>)"

definition pack_words :: "int \<Rightarrow> string list \<Rightarrow> string list" where
  \<comment> \<open>the loop over the words and the last \<open>pushCurrent()\<close>\<close>
  "pack_words chunkSize words =
     chunks (pushCurrent (foldl (pack_word chunkSize)
       \<lparr> chunks = [], current = [], currentLength = 0 \<rparr> words))"

definition merge_tail :: "int \<Rightarrow> string list \<Rightarrow> string list" where
  \<comment> \<open>the last chunk, when short, is popped and appended to the one before it\<close>
  "merge_tail minChunkSize cs =
     (if 1 < length cs \<and> int (length (last cs)) < minChunkSize
      then (let tail = last cs; rest = butlast cs
            in butlast rest @ [trim (last rest @ [CHR 0x20] @ tail)])
      else cs)"

definition chunkText :: "string \<Rightarrow> chunk_options \<Rightarrow> string list" where
  "chunkText text options =
     (let chunkSize = chunkSize_of options;
          minChunkSize = minChunkSize_of options;
          normalized = normalizeWhitespace text
      in if normalized = [] then []
         else
           (let words = text_words normalized
            in if words = [] then []
               else merge_tail minChunkSize (pack_words chunkSize words)))"

subsection \<open>buildChunkObjects\<close>

record source =
  src_id :: string
  src_type :: string
  src_name :: string
  src_metadata :: "(string \<times> string) list"

record chunk_object =
  co_id :: string
  co_text :: string
  co_sourceId :: string
  co_sourceType :: string
  co_sourceName :: string
  co_metadata :: "(string \<times> string) list"
    \<comment> \<open>\<open>...source.metadata\<close>; \<open>chunkIndex\<close> and \<open>chunkCount\<close> are the next two fields\<close>
  co_chunkIndex :: nat
  co_chunkCount :: nat

definition segments_of :: "string \<Rightarrow> chunk_options \<Rightarrow> string list" where
  "segments_of input options =
     (let providedSegments =
            (case opt_segments options of None \<Rightarrow> None
             | Some segs \<Rightarrow> Some (filter (\<lambda>g. g \<noteq> []) segs))
      in case providedSegments of
           None \<Rightarrow> chunkText input options
         | Some segs \<Rightarrow>
             if segs \<noteq> [] then filter (\<lambda>g. g \<noteq> []) (map normalizeWhitespace segs)
             else chunkText input options)"

definition baseId_of :: "source \<Rightarrow> chunk_options \<Rightarrow> string" where
  \<comment> \<open>\<open>options.baseId || source.id\<close>\<close>
  "baseId_of src options = (if opt_baseId options \<noteq> [] then opt_baseId options else src_id src)"

definition buildChunkObjects ::
  "(nat \<Rightarrow> string) \<Rightarrow> string \<Rightarrow> source \<Rightarrow> chunk_options \<Rightarrow> chunk_object list" where
  \<comment> \<open>\<open>randomUUID i\<close> is what \<open>crypto.randomUUID()\<close> returns for the segment of index \<open>i\<close>\<close>
  "buildChunkObjects randomUUID input src options =
     (let segments = segments_of input options;
          baseId = baseId_of src options;
          useStableIds = opt_useStableIds options
      in map (\<lambda>(index, segment).
            \<lparr> co_id = (if useStableIds then baseId @ '':'' @ digits_of (index + 1)
                       else baseId @ '':'' @ digits_of (index + 1) @ '':'' @ randomUUID index),
              co_text = segment,
              co_sourceId = src_id src,
              co_sourceType = src_type src,
              co_sourceName = src_name src,
              co_metadata = src_metadata src,
              co_chunkIndex = index,
              co_chunkCount = length segments \<rparr>)
          (enumerate 0 segments))"

subsection \<open>Predicates for the chunker's properties\<close>

definition clean :: "string \<Rightarrow> bool" where
  \<comment> \<open>not empty, with no white space at either end: \<open>trim\<close> leaves such a string alone\<close>
  "clean s \<longleftrightarrow> s \<noteq> [] \<and> \<not> is_space (hd s) \<and> \<not> is_space (last s)"

definition fits :: "int \<Rightarrow> string list \<Rightarrow> string \<Rightarrow> bool" where
  \<comment> \<open>within \<open>chunkSize\<close>, or one of the words, longer than \<open>chunkSize\<close>, on its own\<close>
  "fits chunkSize words c \<longleftrightarrow>
     int (length c) \<le> chunkSize \<or> (c \<in> set words \<and> chunkSize < int (length c))"

definition packer_inv :: "int \<Rightarrow> string list \<Rightarrow> packer \<Rightarrow> bool" where
  \<comment> \<open>what every round of the packing loop keeps\<close>
  "packer_inv chunkSize words st \<longleftrightarrow>
     (\<forall>c \<in> set (chunks st). fits chunkSize words c \<and> clean c) \<and>
     set (current st) \<subseteq> set words \<and>
     (current st = [] \<longrightarrow> currentLength st = 0 \<and> chunks st = []) \<and>
     (current st \<noteq> [] \<longrightarrow>
        int (length (join [CHR 0x20] (current st))) \<le> currentLength st \<and>
        currentLength st \<le> int (length (join [CHR 0x20] (current st))) + 1 \<and>
        (currentLength st \<le> chunkSize \<or> length (current st) = 1)) \<and>
     (chunks st \<noteq> [] \<longrightarrow>
        chunkSize \<le> int (length (last (chunks st))) + 1 + int (length (hd (current st))))"

definition flushed_before :: "int \<Rightarrow> string list \<Rightarrow> string \<Rightarrow> string \<Rightarrow> bool" where
  \<comment> \<open>\<open>d\<close> begins with a word that, with its separating space, did not fit below
      \<open>chunkSize\<close> after \<open>c\<close>\<close>
  "flushed_before chunkSize words c d \<longleftrightarrow>
     (\<exists>w \<in> set words. \<exists>rest. d = w @ rest \<and>
        chunkSize \<le> int (length c) + 1 + int (length w))"

definition fox_text :: string where
  \<comment> \<open>a sentence of nine words, four times\<close>
  "fox_text =
     ''The quick brown fox jumps over the lazy dog The quick brown fox jumps over the lazy dog ''
     @ ''The quick brown fox jumps over the lazy dog The quick brown fox jumps over the lazy dog''"

section \<open>The vector index and the retriever (ai_champion_middleware.js)\<close>

subsection \<open>Case mapping, search and the two patterns\<close>

definition upper_letters :: string where
  "upper_letters = ''ABCDEFGHIJKLMNOPQRSTUVWXYZ''"

definition lower_letters :: string where
  "lower_letters = ''abcdefghijklmnopqrstuvwxyz''"

definition latin1_upper :: string where
  \<comment> \<open>the capital letters from \<open>0xC0\<close> to \<open>0xDE\<close>; \<open>0xD7\<close> is the multiplication sign\<close>
  "latin1_upper =
     [
      CHR 0xC0, CHR 0xC1, CHR 0xC2, CHR 0xC3, CHR 0xC4, CHR 0xC5, CHR 0xC6, CHR 0xC7,
      CHR 0xC8, CHR 0xC9, CHR 0xCA, CHR 0xCB, CHR 0xCC, CHR 0xCD, CHR 0xCE, CHR 0xCF,
      CHR 0xD0, CHR 0xD1, CHR 0xD2, CHR 0xD3, CHR 0xD4, CHR 0xD5, CHR 0xD6, CHR 0xD8,
      CHR 0xD9, CHR 0xDA, CHR 0xDB, CHR 0xDC, CHR 0xDD, CHR 0xDE]"

definition latin1_lower :: string where
  \<comment> \<open>their small letters, from \<open>0xE0\<close> to \<open>0xFE\<close>; \<open>0xF7\<close> is the division sign\<close>
  "latin1_lower =
     [
      CHR 0xE0, CHR 0xE1, CHR 0xE2, CHR 0xE3, CHR 0xE4, CHR 0xE5, CHR 0xE6, CHR 0xE7,
      CHR 0xE8, CHR 0xE9, CHR 0xEA, CHR 0xEB, CHR 0xEC, CHR 0xED, CHR 0xEE, CHR 0xEF,
      CHR 0xF0, CHR 0xF1, CHR 0xF2, CHR 0xF3, CHR 0xF4, CHR 0xF5, CHR 0xF6, CHR 0xF8,
      CHR 0xF9, CHR 0xFA, CHR 0xFB, CHR 0xFC, CHR 0xFD, CHR 0xFE]"

definition lower_char :: "char \<Rightarrow> char" where
  "lower_char c =
     (case map_of (zip (upper_letters @ latin1_upper) (lower_letters @ latin1_lower)) c of
        Some d \<Rightarrow> d
      | None \<Rightarrow> c)"

definition upper_chars :: "char \<Rightarrow> string" where
  \<comment> \<open>the sharp s, \<open>0xDF\<close>, becomes \<open>SS\<close>; the upper-case forms of \<open>0xB5\<close> and \<open>0xFF\<close> are
      code units beyond 255, and these two are left as they are\<close>
  "upper_chars c =
     (if c = CHR 0xDF then ''SS''
      else (case map_of (zip (lower_letters @ latin1_lower) (upper_letters @ latin1_upper)) c of
              Some d \<Rightarrow> [d]
            | None \<Rightarrow> [c]))"

definition toLowerCase :: "string \<Rightarrow> string" where
  "toLowerCase s = map lower_char s"

definition toUpperCase :: "string \<Rightarrow> string" where
  "toUpperCase s = concat (map upper_chars s)"

definition is_digit :: "char \<Rightarrow> bool" where
  \<comment> \<open>\<open>\d\<close>\<close>
  "is_digit c \<longleftrightarrow> c \<in> set ''0123456789''"

definition is_lower_alnum :: "char \<Rightarrow> bool" where
  \<comment> \<open>\<open>[a-z0-9]\<close>\<close>
  "is_lower_alnum c \<longleftrightarrow> c \<in> set lower_letters \<or> is_digit c"

definition is_token_char :: "char \<Rightarrow> bool" where
  \<comment> \<open>\<open>[a-z0-9-]\<close>\<close>
  "is_token_char c \<longleftrightarrow> is_lower_alnum c \<or> c = CHR ''-''"

fun starts_with :: "string \<Rightarrow> string \<Rightarrow> bool" where
  "starts_with s [] = True"
| "starts_with [] (n # ns) = False"
| "starts_with (c # cs) (n # ns) = (c = n \<and> starts_with cs ns)"

fun includes_str :: "string \<Rightarrow> string \<Rightarrow> bool" where
  \<comment> \<open>\<open>s.includes(needle)\<close>\<close>
  "includes_str [] needle = (needle = [])"
| "includes_str (c # cs) needle = (starts_with (c # cs) needle \<or> includes_str cs needle)"

definition uniq :: "'a list \<Rightarrow> 'a list" where
  \<comment> \<open>\<open>Array.from(new Set(xs))\<close>: the first occurrence of each element, in order\<close>
  "uniq xs = foldl (\<lambda>acc x. if x \<in> set acc then acc else acc @ [x]) [] xs"

function match_tokens :: "string \<Rightarrow> string list" where
  \<comment> \<open>\<open>.match(/[a-z0-9][a-z0-9-]{2,}/g) || []\<close>: the matches from left to right\<close>
  "match_tokens [] = []"
| "match_tokens (c # cs) =
     (if is_lower_alnum c \<and> 2 \<le> length (takeWhile is_token_char cs)
      then (c # takeWhile is_token_char cs) # match_tokens (dropWhile is_token_char cs)
      else match_tokens cs)"
  by pat_completeness auto
termination
  by (relation "measure length") (auto simp: length_dropWhile_le less_Suc_eq_le)

function match_case_ids :: "string \<Rightarrow> string list" where
  \<comment> \<open>\<open>.match(/CS\d{5,}/g)\<close>, \<open>[]\<close> for \<open>null\<close>: the matches from left to right\<close>
  "match_case_ids [] = []"
| "match_case_ids [c] = []"
| "match_case_ids (c # d # ds) =
     (if c = CHR ''C'' \<and> d = CHR ''S'' \<and> 5 \<le> length (takeWhile is_digit ds)
      then (c # d # takeWhile is_digit ds) # match_case_ids (dropWhile is_digit ds)
      else match_case_ids (d # ds))"
  by pat_completeness auto
termination
  by (relation "measure length") (auto simp: length_dropWhile_le less_Suc_eq_le le_SucI)

definition extractCaseIdsFromText :: "string \<Rightarrow> string list" where
  "extractCaseIdsFromText s = (if s = [] then [] else uniq (match_case_ids (toUpperCase s)))"

subsection \<open>Index and namespace names\<close>



definition or_str :: "string \<Rightarrow> string \<Rightarrow> string" where
  \<comment> \<open>\<open>a || b\<close> on strings: the empty string is falsy, and stands for an absent one\<close>
  "or_str a b = (if a \<noteq> [] then a else b)"



subsection \<open>Chunks, matches and the external services\<close>

text \<open>
  A metadata object is a record of the fields that the code reads or writes. A string
  field is empty when the key is absent; \<open>md_text\<close> and \<open>md_snippet\<close> are \<open>None\<close> unless
  the value is a string. Scores are exact rationals.

  The embedding service and the vector index are functions that give the answer to each
  request, and a function that calls them returns, with its result, the list of the
  calls that it made, in order. \<open>ensureTenantIndex\<close> is taken as one such call. Logging,
  the \<open>createdAt\<close> field of a result and the serialisation of its metadata are left out.
\<close>

record meta =
  md_chunkId :: string
  md_id :: string
  md_text :: "string option"
  md_snippet :: "string option"
  md_origin :: string
  md_sourceName :: string
  md_title :: string
  md_filename :: string
  md_documentTitle :: string
  md_source :: string
  md_groupName :: string
  md_keywords :: "string list"
  md_matchedCaseIds :: "string list"
  md_pineconeIndex :: string
  md_pineconeNamespace :: string
  md_role :: string
  md_model :: string
  md_score :: "rat option"

definition empty_meta :: meta where
  \<comment> \<open>\<open>{}\<close>\<close>
  "empty_meta =
     \<lparr> md_chunkId = [], md_id = [], md_text = None, md_snippet = None, md_origin = [],
       md_sourceName = [], md_title = [], md_filename = [], md_documentTitle = [],
       md_source = [], md_groupName = [], md_keywords = [], md_matchedCaseIds = [],
       md_pineconeIndex = [], md_pineconeNamespace = [], md_role = [], md_model = [],
       md_score = None \<rparr>"

record chunk_rec =
  ch_id :: string
  ch_text :: "string option"
    \<comment> \<open>\<open>chunk.text\<close> when it is a string\<close>
  ch_content :: string
    \<comment> \<open>\<open>String(chunk.content || '')\<close>\<close>
  ch_name :: string
  ch_sourceType :: string
  ch_sourceName :: string
  ch_metadata :: "meta option"
    \<comment> \<open>\<open>chunk.metadata\<close> when it is an object\<close>

datatype knowledge_chunk =
    NoChunk
  | LegacyChunk string
  | Chunk chunk_rec

record floppy =
  fl_id :: string
  fl_title :: string
  fl_knowledgeChunks :: "knowledge_chunk list"

record target =
  indexName :: string
  namespace :: string

record match =
  m_id :: string
  m_score :: "rat option"
  m_metadata :: "meta option"

datatype error = Error string

datatype embed_response =
    FetchFailed string
  | NotOk nat string
  | NoEmbeddingArray
  | Embedding "rat list"

record vector_rec =
  vec_id :: string
  vec_values :: "rat list"
  vec_chunkId :: string
    \<comment> \<open>\<open>metadata.chunkId\<close> of the vector\<close>
  vec_text :: string
    \<comment> \<open>\<open>metadata.text\<close> of the vector\<close>

datatype action =
    EmbedRequest string
  | EnsureIndex string nat
  | DeleteAll string string
  | Upsert string string "vector_rec list"
  | QueryRequest target int "rat list"

record services =
  ollama :: "string \<Rightarrow> embed_response"
    \<comment> \<open>the answer of the embedding service to a prompt\<close>
  ensureTenantIndex :: "string \<Rightarrow> nat \<Rightarrow> error + string option"
    \<comment> \<open>the index name, \<open>null\<close>, or an error thrown\<close>
  deleteAll :: "string \<Rightarrow> string \<Rightarrow> error option"
  upsert :: "string \<Rightarrow> string \<Rightarrow> vector_rec list \<Rightarrow> error option"
  query :: "target \<Rightarrow> int \<Rightarrow> rat list \<Rightarrow> error + match list"
    \<comment> \<open>\<open>response?.matches || []\<close>, or an error thrown\<close>
  hashChunkId :: "string \<Rightarrow> string"
    \<comment> \<open>the SHA-256 digest of a chunk identifier, in hexadecimal\<close>

record config =
  cfg_enabled :: bool
    \<comment> \<open>\<open>pineconeConfig.enabled\<close>\<close>
  cfg_client :: bool
    \<comment> \<open>\<open>pineconeClient\<close> is not \<open>null\<close>\<close>
  cfg_queryTopK_env :: "int option"
    \<comment> \<open>\<open>Number.parseInt(process.env.PINECONE_QUERY_TOP_K || '', 10)\<close>, \<open>None\<close> for \<open>NaN\<close>\<close>

definition queryTopK :: "config \<Rightarrow> int" where
  "queryTopK cfg =
     (case cfg_queryTopK_env cfg of None \<Rightarrow> 6 | Some n \<Rightarrow> max 1 (min 20 n))"

fun embedTextsWithOllama ::
  "services \<Rightarrow> string list \<Rightarrow> (error + rat list list) \<times> action list" where
  "embedTextsWithOllama svc [] = (Inr [], [])"
| "embedTextsWithOllama svc (t # ts) =
     (case ollama svc t of
        FetchFailed msg \<Rightarrow> (Inl (Error msg), [EmbedRequest t])
      | NotOk status body \<Rightarrow>
          (Inl (Error (''Ollama embedding request failed ('' @ digits_of status @ ''): '' @ body)),
           [EmbedRequest t])
      | NoEmbeddingArray \<Rightarrow>
          (Inl (Error ''Ollama embedding response missing embedding array''), [EmbedRequest t])
      | Embedding v \<Rightarrow>
          (case embedTextsWithOllama svc ts of
             (Inl e, tr) \<Rightarrow> (Inl e, EmbedRequest t # tr)
           | (Inr vs, tr) \<Rightarrow> (Inr (v # vs), EmbedRequest t # tr)))"

subsection \<open>syncFloppyToPinecone\<close>






subsection \<open>createPineconeMemoryProvider\<close>

definition stopWords :: "string list" where
  "stopWords =
     [''the'', ''and'', ''for'', ''with'', ''that'', ''this'', ''from'', ''have'', ''your'',
      ''will'', ''into'', ''about'', ''there'', ''their'', ''when'', ''what'', ''which'',
      ''while'', ''where'', ''these'', ''those'', ''been'', ''being'', ''more'', ''some'',
      ''than'', ''then'', ''them'', ''they'', ''could'', ''would'', ''should'', ''because'',
      ''through'', ''using'', ''given'', ''after'', ''before'', ''during'', ''within'',
      ''between'', ''among'', ''over'', ''under'', ''into'', ''onto'', ''also'', ''just'',
      ''very'', ''each'', ''other'', ''every'', ''such'', ''amongst'', ''maybe'', ''might'',
      ''much'', ''many'', ''like'', ''said'', ''does'', ''done'', ''only'', ''even'', ''well'',
      ''keep'', ''know'']"

definition count_token :: "(string \<times> nat) list \<Rightarrow> string \<Rightarrow> (string \<times> nat) list" where
  \<comment> \<open>\<open>counts.set(token, (counts.get(token) || 0) + 1)\<close> on a map in insertion order\<close>
  "count_token counts token =
     (if token \<in> set stopWords then counts
      else if token \<in> fst ` set counts
           then map (\<lambda>(w, n). if w = token then (w, n + 1) else (w, n)) counts
           else counts @ [(token, 1)])"

definition extractKeywords :: "string \<Rightarrow> string list \<Rightarrow> string list" where
  \<comment> \<open>the only reader of \<open>stopWords\<close>\<close>
  "extractKeywords s existing =
     (if s = [] then existing
      else
        (let tokens = match_tokens (toLowerCase s)
         in if tokens = [] then existing
            else
              (let counts = foldl count_token [] tokens;
                   ranked = take 6 (map fst (sort_key (\<lambda>(w, n). - int n) counts));
                   merged = uniq (map toLowerCase existing @ ranked)
               in take 8 (filter (\<lambda>w. w \<noteq> []) merged))))"

definition chunkTextRaw :: "knowledge_chunk \<Rightarrow> string" where
  \<comment> \<open>\<open>typeof chunk?.text === 'string' ? chunk.text : String(chunk?.content || '')\<close>\<close>
  "chunkTextRaw chunk =
     (case chunk of
        Chunk c \<Rightarrow> (case ch_text c of Some t \<Rightarrow> t | None \<Rightarrow> ch_content c)
      | _ \<Rightarrow> [])"

definition chunkMetadata_of :: "knowledge_chunk \<Rightarrow> meta" where
  \<comment> \<open>\<open>(chunk && typeof chunk.metadata === 'object') ? { ...chunk.metadata } : {}\<close>\<close>
  "chunkMetadata_of chunk =
     (case chunk of
        Chunk c \<Rightarrow> (case ch_metadata c of Some m \<Rightarrow> m | None \<Rightarrow> empty_meta)
      | _ \<Rightarrow> empty_meta)"

definition chunk_field :: "(chunk_rec \<Rightarrow> string) \<Rightarrow> knowledge_chunk \<Rightarrow> string" where
  "chunk_field f chunk = (case chunk of Chunk c \<Rightarrow> f c | _ \<Rightarrow> [])"

definition chunkId_of :: "string \<Rightarrow> nat \<Rightarrow> knowledge_chunk \<Rightarrow> string" where
  \<comment> \<open>\<open>chunk.id || chunkMetadata.chunkId || `${floppy.id}:chunk:${idx}`\<close>\<close>
  "chunkId_of floppy_id idx chunk =
     or_str (chunk_field ch_id chunk)
       (or_str (md_chunkId (chunkMetadata_of chunk)) (floppy_id @ '':chunk:'' @ digits_of idx))"

definition keywordSet_of :: "meta \<Rightarrow> string list" where
  \<comment> \<open>the trimmed, non-empty keywords of the chunk's metadata\<close>
  "keywordSet_of md = uniq (filter (\<lambda>w. w \<noteq> []) (map trim (md_keywords md)))"

definition sourceLabel_of :: "string \<Rightarrow> knowledge_chunk \<Rightarrow> string" where
  "sourceLabel_of chunkId chunk =
     (let md = chunkMetadata_of chunk
      in or_str (md_sourceName md) (or_str (md_title md) (or_str (md_filename md)
           (or_str (md_documentTitle md) (or_str (md_source md) (or_str (md_groupName md)
             (or_str (chunk_field ch_name chunk) chunkId)))))))"

definition forEach_push :: "('a \<Rightarrow> 'b option) \<Rightarrow> 'a list \<Rightarrow> 'b list" where
  \<comment> \<open>\<open>xs.forEach(...)\<close> whose body returns early or pushes one element\<close>
  "forEach_push f xs = foldl (\<lambda>acc x. case f x of None \<Rightarrow> acc | Some y \<Rightarrow> acc @ [y]) [] xs"

definition directCaseMatch ::
  "string \<Rightarrow> string list \<Rightarrow> nat \<times> knowledge_chunk \<Rightarrow> match option" where
  "directCaseMatch floppy_id queryCaseIdsLower ic =
     (case ic of (idx, chunk) \<Rightarrow>
        (let chunkTextRaw = chunkTextRaw chunk
         in if chunkTextRaw = [] then None
            else
              (let lower = toLowerCase chunkTextRaw;
                   matchedIds = filter (\<lambda>i. includes_str lower i) queryCaseIdsLower
               in if matchedIds = [] then None
                  else
                    (let chunkMetadata = chunkMetadata_of chunk;
                         chunkId = chunkId_of floppy_id idx chunk;
                         keywordSet = uniq (keywordSet_of chunkMetadata @ matchedIds);
                         sourceLabel = sourceLabel_of chunkId chunk
                     in Some \<lparr> m_id = chunkId, m_score = Some (999 / 1000),
                                 m_metadata = Some (chunkMetadata
                                   \<lparr> md_origin := ''case-id'', md_chunkId := chunkId,
                                     md_sourceName := sourceLabel, md_keywords := keywordSet,
                                     md_matchedCaseIds := map toUpperCase matchedIds,
                                     md_text := Some chunkTextRaw \<rparr>) \<rparr>))))"

definition lexicalScore :: "nat \<Rightarrow> nat \<Rightarrow> rat" where
  \<comment> \<open>\<open>Math.min(0.98, 0.6 + (hits.length / searchTokens.length) * 0.4)\<close>\<close>
  "lexicalScore hits tokens = min (98 / 100) (6 / 10 + (of_nat hits / of_nat tokens) * (4 / 10))"

definition lexicalMatch ::
  "string \<Rightarrow> string list \<Rightarrow> string list \<Rightarrow> nat \<times> knowledge_chunk \<Rightarrow> match option" where
  "lexicalMatch floppy_id queryCaseIdsLower searchTokens ic =
     (case ic of (idx, chunk) \<Rightarrow>
        (let chunkTextRaw = chunkTextRaw chunk
         in if chunkTextRaw = [] then None
            else
              (let chunkText = toLowerCase chunkTextRaw
               in if queryCaseIdsLower \<noteq> []
                     \<and> \<not> (\<exists>i \<in> set queryCaseIdsLower. includes_str chunkText i)
                  then None
                  else
                    (let hits = filter (\<lambda>token. includes_str chunkText token) searchTokens
                     in if hits = [] then None
                        else
                          (let chunkMetadata = chunkMetadata_of chunk;
                               chunkId = chunkId_of floppy_id idx chunk;
                               keywordSet = uniq (keywordSet_of chunkMetadata @ hits
                                 @ map toUpperCase
                                     (filter (\<lambda>i. includes_str chunkText i) queryCaseIdsLower));
                               sourceLabel = sourceLabel_of chunkId chunk
                           in Some \<lparr> m_id = chunkId,
                                       m_score = Some (lexicalScore (length hits) (length searchTokens)),
                                       m_metadata = Some (chunkMetadata
                                         \<lparr> md_origin := or_str (md_origin chunkMetadata) ''lexical'',
                                           md_chunkId := chunkId, md_sourceName := sourceLabel,
                                           md_keywords := keywordSet,
                                           md_text := Some chunkTextRaw \<rparr>) \<rparr>)))))"

definition directCaseMatches :: "floppy \<Rightarrow> string list \<Rightarrow> match list" where
  "directCaseMatches fl queryCaseIdsLower =
     (if queryCaseIdsLower \<noteq> [] \<and> fl_knowledgeChunks fl \<noteq> []
      then forEach_push (directCaseMatch (fl_id fl) queryCaseIdsLower)
             (enumerate 0 (fl_knowledgeChunks fl))
      else [])"

definition searchTokens_of :: "string list \<Rightarrow> string list" where
  "searchTokens_of uniqueTokens =
     (let strongTokens = filter (\<lambda>token. 2 < length token) uniqueTokens
      in if strongTokens \<noteq> [] then strongTokens else uniqueTokens)"

definition lexicalMatches :: "floppy \<Rightarrow> string list \<Rightarrow> string list \<Rightarrow> match list" where
  "lexicalMatches fl queryCaseIdsLower uniqueTokens =
     (if uniqueTokens \<noteq> [] \<and> fl_knowledgeChunks fl \<noteq> []
      then forEach_push (lexicalMatch (fl_id fl) queryCaseIdsLower (searchTokens_of uniqueTokens))
             (enumerate 0 (fl_knowledgeChunks fl))
      else [])"

fun queryTargets ::
  "services \<Rightarrow> int \<Rightarrow> rat list \<Rightarrow> target list \<Rightarrow> (target \<times> match) list \<times> action list" where
  \<comment> \<open>the loop over \<open>resolvedTargets\<close>: a target whose query throws adds nothing\<close>
  "queryTargets svc limit vector [] = ([], [])"
| "queryTargets svc limit vector (t # ts) =
     (let here = (case query svc t limit vector of Inl err \<Rightarrow> [] | Inr matches \<Rightarrow> map (Pair t) matches);
          (pool, tr) = queryTargets svc limit vector ts
      in (here @ pool, QueryRequest t limit vector # tr))"

definition local_entry :: "match \<Rightarrow> target \<times> match" where
  \<comment> \<open>a local match under the target named in its metadata, \<open>null\<close> as the empty string\<close>
  "local_entry m =
     (let md = (case m_metadata m of Some d \<Rightarrow> d | None \<Rightarrow> empty_meta)
      in (\<lparr> indexName = md_pineconeIndex md, namespace = md_pineconeNamespace md \<rparr>, m))"

definition score_or_zero :: "match \<Rightarrow> rat" where
  \<comment> \<open>\<open>match?.score ?? 0\<close>\<close>
  "score_or_zero m = (case m_score m of None \<Rightarrow> 0 | Some s \<Rightarrow> s)"

definition sort_by_score :: "(target \<times> match) list \<Rightarrow> (target \<times> match) list" where
  \<comment> \<open>\<open>aggregated.sort((a, b) => (b.match?.score ?? 0) - (a.match?.score ?? 0))\<close>; the sort is stable\<close>
  "sort_by_score aggregated = sort_key (\<lambda>e. - score_or_zero (snd e)) aggregated"

definition metadata_of :: "match \<Rightarrow> meta" where
  \<comment> \<open>\<open>match?.metadata || {}\<close>\<close>
  "metadata_of m = (case m_metadata m of Some d \<Rightarrow> d | None \<Rightarrow> empty_meta)"

definition trimmed_or_empty :: "string option \<Rightarrow> string" where
  \<comment> \<open>\<open>typeof v === 'string' && v.trim() ? v.trim() : ''\<close>\<close>
  "trimmed_or_empty v = (case v of None \<Rightarrow> [] | Some s \<Rightarrow> trim s)"

definition snippet_of :: "meta \<Rightarrow> string" where
  "snippet_of md =
     (if trimmed_or_empty (md_text md) \<noteq> [] then trimmed_or_empty (md_text md)
      else trimmed_or_empty (md_snippet md))"

definition docId_of :: "match \<Rightarrow> string" where
  \<comment> \<open>\<open>metadata.chunkId || metadata.id || match.id\<close>\<close>
  "docId_of m = or_str (md_chunkId (metadata_of m)) (or_str (md_id (metadata_of m)) (m_id m))"

record result =
  Score :: "rat option"
  doc_id :: string
  role :: string
  content :: string
  model :: string
  metadata :: meta
    \<comment> \<open>\<open>enrichedMetadata\<close>, before \<open>JSON.stringify\<close>\<close>

definition make_result :: "target \<Rightarrow> match \<Rightarrow> result" where
  "make_result tg m =
     (let md = metadata_of m;
          snippet = snippet_of md;
          enrichedMetadata = md
            \<lparr> md_pineconeIndex := or_str (indexName tg) (md_pineconeIndex md),
              md_pineconeNamespace := or_str (namespace tg) (md_pineconeNamespace md),
              md_score := m_score m,
              md_keywords := extractKeywords snippet (md_keywords md) \<rparr>
      in \<lparr> Score = m_score m, doc_id = docId_of m, role = or_str (md_role md) ''knowledge'',
           content = snippet, model = or_str (md_model md) ''pinecone'',
           metadata = enrichedMetadata \<rparr>)"

fun collect ::
  "int \<Rightarrow> string list \<Rightarrow> result list \<Rightarrow> (target \<times> match) list \<Rightarrow> result list" where
  \<comment> \<open>the loop over the sorted \<open>aggregated\<close>, from the state \<open>seen\<close>, \<open>results\<close>\<close>
  "collect effectiveLimit seen results [] = results"
| "collect effectiveLimit seen results ((tg, m) # rest) =
     (if effectiveLimit \<le> int (length results) then results
      else if snippet_of (metadata_of m) = [] then collect effectiveLimit seen results rest
      else if docId_of m = [] \<or> docId_of m \<in> set seen then collect effectiveLimit seen results rest
      else collect effectiveLimit (docId_of m # seen) (results @ [make_result tg m]) rest)"

definition limit_of :: "config \<Rightarrow> int option \<Rightarrow> int" where
  \<comment> \<open>\<open>Math.max(1, Math.min(20, topK || maxTopK))\<close>, \<open>maxTopK = pineconeConfig.queryTopK || 6\<close>\<close>
  "limit_of cfg topK =
     (let maxTopK = (if queryTopK cfg \<noteq> 0 then queryTopK cfg else 6);
          requested = (case topK of None \<Rightarrow> maxTopK | Some k \<Rightarrow> if k \<noteq> 0 then k else maxTopK)
      in max 1 (min 20 requested))"

definition aggregated_of ::
  "floppy \<Rightarrow> string \<Rightarrow> (target \<times> match) list \<Rightarrow> (target \<times> match) list" where
  \<comment> \<open>the pool: the matches of the vector queries, then the exact-identifier matches, then
      the lexical ones\<close>
  "aggregated_of fl query_text vector_pool =
     (let queryCaseIdsLower = map toLowerCase (extractCaseIdsFromText query_text);
          uniqueTokens = uniq (match_tokens (toLowerCase query_text))
      in vector_pool
         @ map local_entry (directCaseMatches fl queryCaseIdsLower)
         @ map local_entry (lexicalMatches fl queryCaseIdsLower uniqueTokens))"

definition retrieve ::
  "config \<Rightarrow> services \<Rightarrow> floppy \<Rightarrow> target list \<Rightarrow> string \<Rightarrow> int option
     \<Rightarrow> result list \<times> action list" where
  \<comment> \<open>the function that the provider returns: the results and the calls made, in order\<close>
  "retrieve cfg svc fl resolvedTargets query_string topK =
     (let query_text = trim query_string
      in if query_text = [] then ([], [])
         else
           (case embedTextsWithOllama svc [query_text] of
              (Inl err, tr) \<Rightarrow> ([], tr)
            | (Inr embeddings, tr) \<Rightarrow>
                (case embeddings of
                   [] \<Rightarrow> ([], tr)
                 | vector # _ \<Rightarrow>
                     if vector = [] then ([], tr)
                     else
                       (let limit = limit_of cfg topK;
                            (vector_pool, qtr) = queryTargets svc limit vector resolvedTargets;
                            aggregated = aggregated_of fl query_text vector_pool
                        in if aggregated = [] then ([], tr @ qtr)
                           else
                             (collect (max 1 limit) [] [] (sort_by_score aggregated),
                              tr @ qtr)))))"

definition createPineconeMemoryProvider ::
  "config \<Rightarrow> services \<Rightarrow> floppy option \<Rightarrow> target list
     \<Rightarrow> (string \<Rightarrow> int option \<Rightarrow> result list \<times> action list) option" where
  \<comment> \<open>\<open>resolvedTargets\<close> is the list that the code takes from \<open>targets\<close> or resolves from
      the floppy\<close>
  "createPineconeMemoryProvider cfg svc floppy_opt resolvedTargets =
     (case floppy_opt of
        None \<Rightarrow> None
      | Some fl \<Rightarrow>
          if \<not> cfg_client cfg \<or> \<not> cfg_enabled cfg then None
          else if resolvedTargets = [] then None
          else Some (retrieve cfg svc fl resolvedTargets))"

subsection \<open>Notions for the retriever's properties\<close>

definition result_score :: "result \<Rightarrow> rat" where
  \<comment> \<open>the number by which a result was ranked: its score, or \<open>0\<close> when it has none\<close>
  "result_score r = (case Score r of None \<Rightarrow> 0 | Some s \<Rightarrow> s)"

definition found_instances ::
  "config \<Rightarrow> services \<Rightarrow> floppy \<Rightarrow> target list \<Rightarrow> string \<Rightarrow> int option
     \<Rightarrow> (target \<times> match) list" where
  \<comment> \<open>the pool that a call ranks: what the vector queries, the exact-identifier pass and the
      lexical pass found; nothing when the call returns before the passes\<close>
  "found_instances cfg svc fl resolvedTargets query_string topK =
     (if trim query_string = [] then []
      else
        (case fst (embedTextsWithOllama svc [trim query_string]) of
           Inr (vector # _) \<Rightarrow>
             if vector = [] then []
             else aggregated_of fl (trim query_string)
                    (fst (queryTargets svc (limit_of cfg topK) vector resolvedTargets))
         | _ \<Rightarrow> []))"

subsection \<open>A small knowledge base and three states of the services, for the instances\<close>

definition text_chunk :: "string \<Rightarrow> string \<Rightarrow> knowledge_chunk" where
  "text_chunk ident body =
     Chunk \<lparr> ch_id = ident, ch_text = Some body, ch_content = [], ch_name = [],
             ch_sourceType = [], ch_sourceName = [], ch_metadata = None \<rparr>"

definition case_notes :: floppy where
  "case_notes =
     \<lparr> fl_id = ''kb'', fl_title = ''Case notes'',
       fl_knowledgeChunks =
         [text_chunk ''c0'' ''CS11111 alpha the dog'',
          text_chunk ''c1'' ''cs22222 beta the cat'',
          text_chunk [] ''gamma the-rest''] \<rparr>"

definition pinecone_on :: config where
  "pinecone_on = \<lparr> cfg_enabled = True, cfg_client = True, cfg_queryTopK_env = None \<rparr>"

definition kb_target :: target where
  "kb_target = \<lparr> indexName = ''tenant-admin'', namespace = ''floppy-kb'' \<rparr>"

definition targets_down :: services where
  \<comment> \<open>the embedding service answers; every vector query throws\<close>
  "targets_down =
     \<lparr> ollama = (\<lambda>prompt. Embedding [1, 0]),
       ensureTenantIndex = (\<lambda>tenant dimension. Inr None),
       deleteAll = (\<lambda>index ns. None),
       upsert = (\<lambda>index ns vectors. None),
       query = (\<lambda>tg k vector. Inl (Error ''unavailable'')),
       hashChunkId = (\<lambda>s. s) \<rparr>"

definition embedding_down :: services where
  \<comment> \<open>the embedding service answers with status 500\<close>
  "embedding_down = targets_down \<lparr> ollama := (\<lambda>prompt. NotOk 500 ''unavailable'') \<rparr>"

definition untexted_vector :: services where
  \<comment> \<open>the index holds a vector for chunk \<open>c0\<close> whose metadata has no text\<close>
  "untexted_vector =
     targets_down \<lparr> query := (\<lambda>tg k vector.
        Inr [\<lparr> m_id = ''9f86'', m_score = Some 1,
               m_metadata = Some (empty_meta \<lparr> md_chunkId := ''c0'' \<rparr>) \<rparr>]) \<rparr>"


definition lexical_hits :: "string list \<Rightarrow> knowledge_chunk \<Rightarrow> string list" where
  \<comment> \<open>the tokens that the lower-cased text of the chunk contains\<close>
  "lexical_hits tokens chunk =
     filter (\<lambda>token. includes_str (toLowerCase (chunkTextRaw chunk)) token) tokens"

definition lexical_eligible :: "string list \<Rightarrow> string list \<Rightarrow> knowledge_chunk \<Rightarrow> bool" where
  \<comment> \<open>the chunks that the lexical pass scores: the text is not empty, holds one of the
      query's identifiers when the query has any, and holds one of the tokens\<close>
  "lexical_eligible ids tokens chunk \<longleftrightarrow>
     chunkTextRaw chunk \<noteq> [] \<and>
     (ids = [] \<or> (\<exists>i \<in> set ids. includes_str (toLowerCase (chunkTextRaw chunk)) i)) \<and>
     lexical_hits tokens chunk \<noteq> []"


section \<open>Properties of the chunker\<close>

lemma trim_clean:
  assumes "clean s"
  shows "trim s = s"
proof -
  from assms obtain a t where "s = a # t" and "\<not> is_space a"
    by (cases s) (auto simp: clean_def)
  then have d: "dropWhile is_space s = s" by simp
  from assms obtain ys y where "s = ys @ [y]" and "\<not> is_space y"
    by (cases s rule: rev_cases) (auto simp: clean_def)
  then have "dropWhile is_space (rev s) = rev s" by simp
  with d show ?thesis by (simp add: trim_def)
qed

lemma split_ws_no_space: "w \<in> set (split_ws s) \<Longrightarrow> c \<in> set w \<Longrightarrow> \<not> is_space c"
proof (induction s rule: split_ws.induct)
  case (1 s)
  let ?rest = "dropWhile (\<lambda>c. \<not> is_space c) s"
  have u1: "split_ws s = [takeWhile (\<lambda>c. \<not> is_space c) s]" if "?rest = []"
    using that by (subst split_ws.simps) (simp only: Let_def if_P if_True)
  have u2: "split_ws s =
      takeWhile (\<lambda>c. \<not> is_space c) s # split_ws (dropWhile is_space ?rest)" if "?rest \<noteq> []"
    using that by (subst split_ws.simps) (simp only: Let_def if_not_P if_False)
  show ?case
  proof (cases "?rest = []")
    case True
    with "1.prems"(1) have "w = takeWhile (\<lambda>c. \<not> is_space c) s"
      unfolding u1 [OF True] by simp
    with "1.prems"(2) show ?thesis by (auto dest: set_takeWhileD)
  next
    case False
    with "1.prems"(1) have "w = takeWhile (\<lambda>c. \<not> is_space c) s
        \<or> w \<in> set (split_ws (dropWhile is_space ?rest))"
      unfolding u2 [OF False] by simp
    then show ?thesis
    proof
      assume "w = takeWhile (\<lambda>c. \<not> is_space c) s"
      with "1.prems"(2) show ?thesis by (auto dest: set_takeWhileD)
    next
      assume "w \<in> set (split_ws (dropWhile is_space ?rest))"
      with "1.IH" [OF refl refl False] "1.prems"(2) show ?thesis by simp
    qed
  qed
qed

lemma text_words_clean: "w \<in> set (text_words s) \<Longrightarrow> clean w"
proof -
  assume w: "w \<in> set (text_words s)"
  then have ne: "w \<noteq> []" and "w \<in> set (split_ws s)"
    by (simp_all add: text_words_def)
  then have "\<forall>c \<in> set w. \<not> is_space c"
    using split_ws_no_space by blast
  with ne show ?thesis by (simp add: clean_def)
qed

lemma join_clean_aux:
  "ws \<noteq> [] \<Longrightarrow> \<forall>w \<in> set ws. clean w \<Longrightarrow>
     join [CHR 0x20] ws \<noteq> [] \<and> hd (join [CHR 0x20] ws) = hd (hd ws)
     \<and> last (join [CHR 0x20] ws) = last (last ws)"
  by (induction "[CHR 0x20]" ws rule: join.induct) (auto simp: clean_def)

lemma join_clean: "ws \<noteq> [] \<Longrightarrow> \<forall>w \<in> set ws. clean w \<Longrightarrow> clean (join [CHR 0x20] ws)"
  using join_clean_aux [of ws] by (auto simp: clean_def)

lemma length_join_snoc:
  "ws \<noteq> [] \<Longrightarrow> length (join [CHR 0x20] (ws @ [w])) = length (join [CHR 0x20] ws) + 1 + length w"
  by (induction "[CHR 0x20]" ws rule: join.induct) auto

lemma hd_le_join: "ws \<noteq> [] \<Longrightarrow> length (hd ws) \<le> length (join [CHR 0x20] ws)"
  by (induction "[CHR 0x20]" ws rule: join.induct) auto

lemma packer_inv_step:
  assumes inv: "packer_inv cs W st" and w: "w \<in> set W" and W: "\<forall>w \<in> set W. clean w"
  shows "packer_inv cs W (pack_word cs st w)"
proof (cases "current st = []")
  case True
  with inv w show ?thesis
    by (simp add: packer_inv_def pack_word_def)
next
  case False
  from inv have sub: "set (current st) \<subseteq> set W" by (simp add: packer_inv_def)
  with W have cl: "\<forall>w \<in> set (current st). clean w" by blast
  note j = join_clean [OF False cl]
  from j have jpos: "0 < length (join [CHR 0x20] (current st))" by (simp add: clean_def)
  from inv False have lo: "int (length (join [CHR 0x20] (current st))) \<le> currentLength st"
    and hi: "currentLength st \<le> int (length (join [CHR 0x20] (current st))) + 1"
    and one: "currentLength st \<le> cs \<or> length (current st) = 1"
    by (simp_all add: packer_inv_def)
  from lo jpos have nz: "currentLength st \<noteq> 0" by linarith
  show ?thesis
  proof (cases "currentLength st + (int (length w) + 1) > cs")
    case flush: True
    have fit: "fits cs W (join [CHR 0x20] (current st))"
    proof (cases "currentLength st \<le> cs")
      case True
      with lo show ?thesis by (simp add: fits_def)
    next
      case False
      with one obtain v where "current st = [v]" by (cases "current st") auto
      with sub show ?thesis by (auto simp: fits_def)
    qed
    from flush hi have "cs \<le> int (length (join [CHR 0x20] (current st))) + 1 + int (length w)"
      by linarith
    with inv w fit j jpos False nz flush show ?thesis
      by (simp add: packer_inv_def pack_word_def pushCurrent_def trim_clean Let_def)
  next
    case keep: False
    with one False have "currentLength st \<le> cs" by linarith
    with inv w False nz keep lo hi show ?thesis
      by (simp add: packer_inv_def pack_word_def length_join_snoc)
  qed
qed


lemma packer_inv_foldl:
  "packer_inv cs W st \<Longrightarrow> set ws \<subseteq> set W \<Longrightarrow> \<forall>w \<in> set W. clean w \<Longrightarrow>
     packer_inv cs W (foldl (pack_word cs) st ws)"
  by (induction ws arbitrary: st) (simp_all add: packer_inv_step)

lemma packer_inv_init: "packer_inv cs W \<lparr> chunks = [], current = [], currentLength = 0 \<rparr>"
  by (simp add: packer_inv_def)

lemma current_pack_word: "current (pack_word cs st w) \<noteq> []"
  by (simp add: pack_word_def Let_def)

lemma current_foldl: "ws \<noteq> [] \<Longrightarrow> current (foldl (pack_word cs) st ws) \<noteq> []"
  by (cases ws rule: rev_cases) (simp_all add: current_pack_word)

lemma pack_words_shape:
  assumes ws: "ws \<noteq> []" and sub: "set ws \<subseteq> set W" and W: "\<forall>w \<in> set W. clean w"
  shows "\<exists>cs' c. pack_words cs ws = cs' @ [c] \<and> clean c \<and> fits cs W c \<and>
           (\<forall>d \<in> set cs'. fits cs W d \<and> clean d) \<and>
           (cs' \<noteq> [] \<longrightarrow> cs \<le> int (length (last cs')) + 1 + int (length c))"
proof -
  let ?st = "foldl (pack_word cs) \<lparr> chunks = [], current = [], currentLength = 0 \<rparr> ws"
  let ?j = "join [CHR 0x20] (current ?st)"
  have inv: "packer_inv cs W ?st"
    using packer_inv_foldl [OF packer_inv_init sub W] .
  have ne: "current ?st \<noteq> []" using ws by (rule current_foldl)
  from inv have "set (current ?st) \<subseteq> set W" by (simp add: packer_inv_def)
  with W have cl: "\<forall>w \<in> set (current ?st). clean w" by blast
  note j = join_clean [OF ne cl]
  then have jne: "?j \<noteq> []" by (simp add: clean_def)
  have p: "pack_words cs ws = chunks ?st @ [?j]"
    using ne jne by (simp add: pack_words_def pushCurrent_def trim_clean [OF j] Let_def)
  from inv ne have lo: "int (length ?j) \<le> currentLength ?st"
    and one: "currentLength ?st \<le> cs \<or> length (current ?st) = 1"
    by (simp_all add: packer_inv_def)
  have fit: "fits cs W ?j"
  proof (cases "currentLength ?st \<le> cs")
    case True
    with lo show ?thesis by (simp add: fits_def)
  next
    case False
    with one obtain v where v: "current ?st = [v]" by (cases "current ?st") auto
    with \<open>set (current ?st) \<subseteq> set W\<close> have "v \<in> set W" by simp
    with v show ?thesis by (auto simp: fits_def)
  qed
  from inv have old: "\<forall>d \<in> set (chunks ?st). fits cs W d \<and> clean d"
    by (simp add: packer_inv_def)
  have adj: "cs \<le> int (length (last (chunks ?st))) + 1 + int (length ?j)" if "chunks ?st \<noteq> []"
  proof -
    from inv that
    have "cs \<le> int (length (last (chunks ?st))) + 1 + int (length (hd (current ?st)))"
      by (simp add: packer_inv_def)
    moreover have "length (hd (current ?st)) \<le> length ?j" using ne by (rule hd_le_join)
    ultimately show ?thesis by linarith
  qed
  from p j fit old adj show ?thesis by blast
qed


lemma merge_tail_shape:
  assumes cl: "clean c" "\<forall>d \<in> set cs'. clean d"
  shows "merge_tail m (cs' @ [c]) =
           (if cs' \<noteq> [] \<and> int (length c) < m
            then butlast cs' @ [last cs' @ [CHR 0x20] @ c] else cs' @ [c])"
proof (cases "cs' \<noteq> [] \<and> int (length c) < m")
  case True
  then have "last cs' \<in> set cs'" by simp
  with cl have "clean (last cs')" by blast
  with cl(1) have "clean (last cs' @ [CHR 0x20] @ c)"
    by (cases "last cs'") (auto simp: clean_def)
  then have "trim (last cs' @ [CHR 0x20] @ c) = last cs' @ [CHR 0x20] @ c"
    by (rule trim_clean)
  with True show ?thesis
    by (simp add: merge_tail_def butlast_append Let_def)
next
  case False
  then show ?thesis by (cases cs') (auto simp: merge_tail_def)
qed

lemma chunkText_cases:
  fixes input :: string and options :: chunk_options
  defines "cs \<equiv> chunkSize_of options"
    and "m \<equiv> minChunkSize_of options"
    and "W \<equiv> text_words (normalizeWhitespace input)"
  shows "chunkText input options = [] \<or>
     (\<exists>cs' c. chunkText input options = cs' @ [c] \<and> (\<forall>d \<in> set cs'. fits cs W d) \<and> fits cs W c \<and>
        (cs' \<noteq> [] \<longrightarrow> m \<le> int (length c))) \<or>
     (\<exists>cs' a b. chunkText input options = cs' @ [a @ [CHR 0x20] @ b] \<and>
        (\<forall>d \<in> set cs'. fits cs W d) \<and> fits cs W a \<and> b \<noteq> [] \<and> int (length b) < m \<and>
        cs \<le> int (length a) + 1 + int (length b))"
proof (cases "normalizeWhitespace input = [] \<or> W = []")
  case True
  then have "chunkText input options = []"
    by (auto simp: chunkText_def W_def Let_def)
  then show ?thesis by simp
next
  case False
  then have r: "chunkText input options = merge_tail m (pack_words cs W)"
    by (simp add: chunkText_def W_def cs_def m_def Let_def)
  have W: "\<forall>w \<in> set W. clean w"
    unfolding W_def using text_words_clean by blast
  from False have "W \<noteq> []" by simp
  from pack_words_shape [OF this subset_refl W, of cs]
  obtain cs' c where p: "pack_words cs W = cs' @ [c]" and c: "clean c" "fits cs W c"
    and old: "\<forall>d \<in> set cs'. fits cs W d \<and> clean d"
    and adj: "cs' \<noteq> [] \<longrightarrow> cs \<le> int (length (last cs')) + 1 + int (length c)"
    by blast
  from old have oc: "\<forall>d \<in> set cs'. clean d" by blast
  note shape = merge_tail_shape [OF c(1) oc, of m]
  show ?thesis
  proof (cases "cs' \<noteq> [] \<and> int (length c) < m")
    case True
    with r p shape have eq: "chunkText input options = butlast cs' @ [last cs' @ [CHR 0x20] @ c]"
      by simp
    from True have "last cs' \<in> set cs'" by simp
    with old have "fits cs W (last cs')" by blast
    moreover from old have "\<forall>d \<in> set (butlast cs'). fits cs W d"
      by (auto dest: in_set_butlastD)
    moreover from c have "c \<noteq> []" by (simp add: clean_def)
    ultimately show ?thesis using eq True adj by blast
  next
    case False
    with r p shape have "chunkText input options = cs' @ [c]" by simp
    with False old c show ?thesis by auto
  qed
qed

lemma join_starts_with_hd: "ws \<noteq> [] \<Longrightarrow> \<exists>rest. join [CHR 0x20] ws = hd ws @ rest"
  by (induction "[CHR 0x20]" ws rule: join.induct) auto

lemma chunks_pack_word:
  "chunks (pack_word cs st w) = chunks st \<or>
   (current st \<noteq> [] \<and> chunks (pack_word cs st w) = chunks (pushCurrent st))"
  by (simp add: pack_word_def Let_def)

lemma adjacent_step:
  assumes inv: "packer_inv cs W st" and adj: "successively (flushed_before cs W) (chunks st)"
    and W: "\<forall>w \<in> set W. clean w"
  shows "successively (flushed_before cs W) (chunks (pushCurrent st))"
proof (cases "current st = []")
  case True
  with adj show ?thesis by (simp add: pushCurrent_def)
next
  case False
  from inv have sub: "set (current st) \<subseteq> set W" by (simp add: packer_inv_def)
  with W have cl: "\<forall>w \<in> set (current st). clean w" by blast
  note j = join_clean [OF False cl]
  let ?j = "join [CHR 0x20] (current st)"
  from j have jne: "?j \<noteq> []" by (simp add: clean_def)
  have p: "chunks (pushCurrent st) = chunks st @ [?j]"
    using False jne by (simp add: pushCurrent_def trim_clean [OF j] Let_def)
  have "flushed_before cs W (last (chunks st)) ?j" if "chunks st \<noteq> []"
  proof -
    from inv that
    have "cs \<le> int (length (last (chunks st))) + 1 + int (length (hd (current st)))"
      by (simp add: packer_inv_def)
    moreover from False sub have "hd (current st) \<in> set W" by auto
    moreover from join_starts_with_hd [OF False] obtain rest where "?j = hd (current st) @ rest"
      by blast
    ultimately show ?thesis unfolding flushed_before_def by blast
  qed
  with adj show ?thesis
    unfolding p by (auto simp: successively_append_iff)
qed

lemma adjacent_pack_word:
  assumes "packer_inv cs W st" and "successively (flushed_before cs W) (chunks st)"
    and "\<forall>w \<in> set W. clean w"
  shows "successively (flushed_before cs W) (chunks (pack_word cs st w))"
  using chunks_pack_word [of cs st w] adjacent_step [OF assms] assms(2) by auto

lemma adjacent_foldl:
  "packer_inv cs W st \<Longrightarrow> successively (flushed_before cs W) (chunks st) \<Longrightarrow>
     set ws \<subseteq> set W \<Longrightarrow> \<forall>w \<in> set W. clean w \<Longrightarrow>
     successively (flushed_before cs W) (chunks (foldl (pack_word cs) st ws))"
  by (induction ws arbitrary: st) (simp_all add: packer_inv_step adjacent_pack_word)

lemma adjacent_pack_words:
  assumes "\<forall>w \<in> set W. clean w"
  shows "successively (flushed_before cs W) (pack_words cs W)"
proof -
  let ?init = "\<lparr> chunks = [], current = [], currentLength = 0 \<rparr>"
  have "packer_inv cs W (foldl (pack_word cs) ?init W)"
    using packer_inv_foldl [OF packer_inv_init subset_refl assms] .
  moreover have "successively (flushed_before cs W) (chunks (foldl (pack_word cs) ?init W))"
    using adjacent_foldl [OF packer_inv_init _ subset_refl assms, of cs] by simp
  ultimately show ?thesis
    unfolding pack_words_def using assms by (rule adjacent_step)
qed

lemma flushed_before_extend:
  "flushed_before cs W x a \<Longrightarrow> flushed_before cs W x (a @ b)"
  unfolding flushed_before_def by fastforce

lemma successively_replace_last:
  assumes "successively P (xs @ [a])" and "\<And>x. P x a \<Longrightarrow> P x b"
  shows "successively P (xs @ [b])"
  using assms by (auto simp: successively_append_iff)

lemma successively_nth:
  "successively P xs \<Longrightarrow> Suc k < length xs \<Longrightarrow> P (xs ! k) (xs ! Suc k)"
proof (induction P xs arbitrary: k rule: successively.induct)
  case (3 P x y xs)
  then show ?case by (cases k) auto
qed simp_all

lemma chunkText_adjacent:
  "successively
     (flushed_before (chunkSize_of options) (text_words (normalizeWhitespace input)))
     (chunkText input options)"
proof -
  let ?cs = "chunkSize_of options" and ?m = "minChunkSize_of options"
  let ?W = "text_words (normalizeWhitespace input)"
  show ?thesis
  proof (cases "normalizeWhitespace input = [] \<or> ?W = []")
    case True
    then have "chunkText input options = []"
      by (auto simp: chunkText_def Let_def)
    then show ?thesis by simp
  next
    case False
    then have r: "chunkText input options = merge_tail ?m (pack_words ?cs ?W)"
      by (simp add: chunkText_def Let_def)
    have W: "\<forall>w \<in> set ?W. clean w"
      using text_words_clean by blast
    from False have "?W \<noteq> []" by simp
    from pack_words_shape [OF this subset_refl W, of ?cs]
    obtain cs' c where p: "pack_words ?cs ?W = cs' @ [c]" and c: "clean c"
      and old: "\<forall>d \<in> set cs'. fits ?cs ?W d \<and> clean d"
      by blast
    from old have oc: "\<forall>d \<in> set cs'. clean d" by blast
    note shape = merge_tail_shape [OF c oc, of ?m]
    have adj: "successively (flushed_before ?cs ?W) (cs' @ [c])"
      using adjacent_pack_words [OF W, of ?cs] p by simp
    show ?thesis
    proof (cases "cs' \<noteq> [] \<and> int (length c) < ?m")
      case True
      then have split: "cs' = butlast cs' @ [last cs']" by simp
      from adj have "successively (flushed_before ?cs ?W) cs'"
        by (simp add: successively_append_iff)
      with split have "successively (flushed_before ?cs ?W) (butlast cs' @ [last cs'])"
        by simp
      then have "successively (flushed_before ?cs ?W)
          (butlast cs' @ [last cs' @ [CHR 0x20] @ c])"
        by (rule successively_replace_last) (rule flushed_before_extend)
      with r p shape True show ?thesis by simp
    next
      case False
      with r p shape adj show ?thesis by simp
    qed
  qed
qed

lemma chunkText_words: "chunkText input options \<noteq> [] \<Longrightarrow> text_words (normalizeWhitespace input) \<noteq> []"
  by (auto simp: chunkText_def Let_def split: if_splits)


text \<open>
  Claim C3, as the code has it. Every chunk that \<open>chunkText\<close> returns, the last one apart,
  has at most \<open>chunkSize\<close> characters or is a single word longer than \<open>chunkSize\<close>. The
  last chunk is such a chunk too, or it is such a chunk followed by a space and a tail of
  fewer than \<open>minChunkSize\<close> characters: the short tail that the final step merges into its
  predecessor. A merged last chunk can therefore be longer than \<open>chunkSize\<close> with no word
  longer than \<open>chunkSize\<close>.
\<close>

theorem chunkText_chunk_bound:
  "(\<forall>c \<in> set (butlast (chunkText input options)).
       fits (chunkSize_of options) (text_words (normalizeWhitespace input)) c) \<and>
   (chunkText input options \<noteq> [] \<longrightarrow>
       fits (chunkSize_of options) (text_words (normalizeWhitespace input))
         (last (chunkText input options)) \<or>
       (\<exists>a b. last (chunkText input options) = a @ [CHR 0x20] @ b \<and>
          fits (chunkSize_of options) (text_words (normalizeWhitespace input)) a \<and>
          b \<noteq> [] \<and> int (length b) < minChunkSize_of options))"
  using chunkText_cases [of input options]
  by (elim disjE exE conjE) (simp_all, blast)

text \<open>
  An instance with a word longer than \<open>chunkSize = 10\<close> and a merged tail: the first two
  chunks are within the size, and the last is the long word followed by the tail \<open>h i\<close>.
\<close>

theorem chunkText_chunk_bound_witness:
  "chunkText ''a b c d e f gggggggggggggggg h i''
      \<lparr> opt_chunkSize = Some 10, opt_minChunkSize = Some 5, opt_segments = None,
        opt_baseId = [], opt_useStableIds = False \<rparr>
     = [''a b c d e'', ''f'', ''gggggggggggggggg h i''] \<and>
   fits 10 [''a'', ''b'', ''c'', ''d'', ''e'', ''f'', ''gggggggggggggggg'', ''h'', ''i''] ''a b c d e'' \<and>
   fits 10 [''a'', ''b'', ''c'', ''d'', ''e'', ''f'', ''gggggggggggggggg'', ''h'', ''i''] ''f'' \<and>
   (\<exists>a b. ''gggggggggggggggg h i'' = a @ '' '' @ b \<and>
      fits 10 [''a'', ''b'', ''c'', ''d'', ''e'', ''f'', ''gggggggggggggggg'', ''h'', ''i''] a \<and>
      b \<noteq> [] \<and> int (length b) < 5)"
proof -
  let ?t = "''a b c d e f gggggggggggggggg h i''"
  let ?o = "\<lparr> opt_chunkSize = Some 10, opt_minChunkSize = Some 5, opt_segments = None,
        opt_baseId = [], opt_useStableIds = False \<rparr>"
  have r: "chunkText ?t ?o = [''a b c d e'', ''f'', ''gggggggggggggggg h i'']"
    by code_simp
  have w: "text_words (normalizeWhitespace ?t)
      = [''a'', ''b'', ''c'', ''d'', ''e'', ''f'', ''gggggggggggggggg'', ''h'', ''i'']"
    by code_simp
  have c: "chunkSize_of ?o = 10" "minChunkSize_of ?o = 5"
    by (simp_all add: chunkSize_of_def minChunkSize_of_def or_default_def)
  have nf: "\<not> fits 10 [''a'', ''b'', ''c'', ''d'', ''e'', ''f'', ''gggggggggggggggg'', ''h'', ''i'']
      ''gggggggggggggggg h i''"
    by (simp add: fits_def)
  from chunkText_chunk_bound [of ?t ?o] nf show ?thesis
    unfolding r w c by simp
qed

text \<open>
  Claim C3 as stated fails: with \<open>chunkSize = 10\<close> and \<open>minChunkSize = 5\<close> the text
  \<open>aaaaaaaaa bbb\<close> is returned as one chunk of 13 characters, made of two words, neither
  longer than 10.
\<close>

theorem chunkText_chunk_bound_counterexample:
  "chunkText ''aaaaaaaaa bbb''
      \<lparr> opt_chunkSize = Some 10, opt_minChunkSize = Some 5, opt_segments = None,
        opt_baseId = [], opt_useStableIds = False \<rparr> = [''aaaaaaaaa bbb''] \<and>
   text_words (normalizeWhitespace ''aaaaaaaaa bbb'') = [''aaaaaaaaa'', ''bbb''] \<and>
   length ''aaaaaaaaa bbb'' = 13"
  by code_simp

text \<open>
  Claim C4, as the code has it. Let \<open>chunkText\<close> return more than one chunk. A chunk
  before the last has at least \<open>minChunkSize\<close> characters unless the chunk after it
  begins with a word \<open>w\<close> such that \<open>|w| + minChunkSize + 1 > chunkSize\<close>: a chunk
  is flushed below \<open>minChunkSize\<close> only ahead of a long word. The last chunk has at
  least \<open>minChunkSize\<close> or at least \<open>chunkSize\<close> characters. Hence, when every word \<open>w\<close> of
  the text has \<open>|w| + minChunkSize + 1 \<le> chunkSize\<close>, no chunk is shorter than
  \<open>minChunkSize\<close>.
\<close>

theorem chunkText_min_chunk_size:
  "(\<forall>k. Suc k < length (chunkText input options) \<longrightarrow>
      minChunkSize_of options \<le> int (length (chunkText input options ! k)) \<or>
      (\<exists>w \<in> set (text_words (normalizeWhitespace input)). \<exists>rest.
         chunkText input options ! Suc k = w @ rest \<and>
         chunkSize_of options < int (length w) + minChunkSize_of options + 1)) \<and>
   (1 < length (chunkText input options) \<longrightarrow>
      minChunkSize_of options \<le> int (length (last (chunkText input options))) \<or>
      chunkSize_of options \<le> int (length (last (chunkText input options)))) \<and>
   ((\<forall>w \<in> set (text_words (normalizeWhitespace input)).
        int (length w) + minChunkSize_of options + 1 \<le> chunkSize_of options) \<and>
    1 < length (chunkText input options) \<longrightarrow>
      (\<forall>c \<in> set (chunkText input options). minChunkSize_of options \<le> int (length c)))"
proof -
  let ?r = "chunkText input options"
  let ?cs = "chunkSize_of options" and ?m = "minChunkSize_of options"
  let ?W = "text_words (normalizeWhitespace input)"
  have before: "?m \<le> int (length (?r ! k)) \<or>
      (\<exists>w \<in> set ?W. \<exists>rest. ?r ! Suc k = w @ rest \<and> ?cs < int (length w) + ?m + 1)"
    if "Suc k < length ?r" for k
  proof -
    from successively_nth [OF chunkText_adjacent that]
    obtain w rest where "w \<in> set ?W" and "?r ! Suc k = w @ rest"
      and "?cs \<le> int (length (?r ! k)) + 1 + int (length w)"
      unfolding flushed_before_def by blast
    then show ?thesis
      by (cases "?m \<le> int (length (?r ! k))") auto
  qed
  have final: "?m \<le> int (length (last ?r)) \<or> ?cs \<le> int (length (last ?r))"
    if "1 < length ?r"
    using chunkText_cases [of input options] that
    by (elim disjE exE conjE) simp_all
  have every: "?m \<le> int (length c)"
    if short: "\<forall>w \<in> set ?W. int (length w) + ?m + 1 \<le> ?cs" and many: "1 < length ?r"
      and c: "c \<in> set ?r" for c
  proof -
    from c obtain k where k: "k < length ?r" and ck: "?r ! k = c"
      by (auto simp: in_set_conv_nth)
    show ?thesis
    proof (cases "Suc k < length ?r")
      case True
      from before [OF True] short ck show ?thesis by fastforce
    next
      case False
      with k have "k = length ?r - 1" by simp
      with ck k have last: "c = last ?r"
        by (cases "?r = []") (simp_all add: last_conv_nth)
      from many have "?r \<noteq> []" by auto
      then have "?W \<noteq> []" by (rule chunkText_words)
      then have "hd ?W \<in> set ?W" by simp
      with short have "?m + 1 \<le> ?cs" by fastforce
      with final [OF many] last show ?thesis by auto
    qed
  qed
  from before final every show ?thesis by blast
qed

text \<open>
  Two instances. With \<open>chunkSize = 50\<close> and \<open>minChunkSize = 20\<close> the longest word of the
  fox text has five characters, and its four chunks have 47, 49, 49 and 27 characters.
  With \<open>chunkSize = 10\<close> and \<open>minChunkSize = 8\<close> the chunk \<open>aaa\<close> is followed by a chunk
  that begins with a word of nine characters.
\<close>

theorem chunkText_min_chunk_size_witness:
  "map length (chunkText fox_text
      \<lparr> opt_chunkSize = Some 50, opt_minChunkSize = Some 20, opt_segments = None,
        opt_baseId = [], opt_useStableIds = False \<rparr>) = [47, 49, 49, 27] \<and>
   list_all (\<lambda>c. 20 \<le> int (length c)) (chunkText fox_text
      \<lparr> opt_chunkSize = Some 50, opt_minChunkSize = Some 20, opt_segments = None,
        opt_baseId = [], opt_useStableIds = False \<rparr>) \<and>
   (\<exists>w \<in> set [''aaa'', ''bbbbbbbbb'', ''ccccccccc'']. \<exists>rest.
      ''bbbbbbbbb'' = w @ rest \<and> (10 :: int) < int (length w) + 8 + 1)"
proof -
  let ?o = "\<lparr> opt_chunkSize = Some 50, opt_minChunkSize = Some 20, opt_segments = None,
        opt_baseId = [], opt_useStableIds = False \<rparr>"
  let ?p = "\<lparr> opt_chunkSize = Some 10, opt_minChunkSize = Some 8, opt_segments = None,
        opt_baseId = [], opt_useStableIds = False \<rparr>"
  let ?t = "''aaa bbbbbbbbb ccccccccc''"
  have c: "chunkSize_of ?o = 50" "minChunkSize_of ?o = 20"
    "chunkSize_of ?p = 10" "minChunkSize_of ?p = 8"
    by (simp_all add: chunkSize_of_def minChunkSize_of_def or_default_def)
  have lengths: "map length (chunkText fox_text ?o) = [47, 49, 49, 27]"
    by code_simp
  then have many: "1 < length (chunkText fox_text ?o)"
    using length_map [of length "chunkText fox_text ?o"] by simp
  have short: "\<forall>w \<in> set (text_words (normalizeWhitespace fox_text)).
      int (length w) + 20 + 1 \<le> 50"
    by code_simp
  have r: "chunkText ?t ?p = [''aaa'', ''bbbbbbbbb'', ''ccccccccc'']"
    by code_simp
  have w: "text_words (normalizeWhitespace ?t) = [''aaa'', ''bbbbbbbbb'', ''ccccccccc'']"
    by code_simp
  from chunkText_min_chunk_size [of fox_text ?o] short many
  have "\<forall>c \<in> set (chunkText fox_text ?o). 20 \<le> int (length c)"
    unfolding c by blast
  then have all: "list_all (\<lambda>c. 20 \<le> int (length c)) (chunkText fox_text ?o)"
    by (simp add: list_all_iff)
  from chunkText_min_chunk_size [of ?t ?p]
  have "Suc 0 < length (chunkText ?t ?p) \<longrightarrow>
      minChunkSize_of ?p \<le> int (length (chunkText ?t ?p ! 0)) \<or>
      (\<exists>w \<in> set (text_words (normalizeWhitespace ?t)). \<exists>rest.
         chunkText ?t ?p ! Suc 0 = w @ rest \<and>
         chunkSize_of ?p < int (length w) + minChunkSize_of ?p + 1)"
    by blast
  then have "\<exists>w \<in> set [''aaa'', ''bbbbbbbbb'', ''ccccccccc'']. \<exists>rest.
      ''bbbbbbbbb'' = w @ rest \<and> (10 :: int) < int (length w) + 8 + 1"
    unfolding r w c by simp
  with lengths all show ?thesis by blast
qed

text \<open>
  Claim C4 as stated fails: with \<open>chunkSize = 10\<close> and \<open>minChunkSize = 8\<close> the first of
  three chunks has 3 characters; the word after it has 9.
\<close>

theorem chunkText_min_counterexample:
  "chunkText ''aaa bbbbbbbbb ccccccccc''
      \<lparr> opt_chunkSize = Some 10, opt_minChunkSize = Some 8, opt_segments = None,
        opt_baseId = [], opt_useStableIds = False \<rparr>
     = [''aaa'', ''bbbbbbbbb'', ''ccccccccc''] \<and>
   minChunkSize_of \<lparr> opt_chunkSize = Some 10, opt_minChunkSize = Some 8, opt_segments = None,
        opt_baseId = [], opt_useStableIds = False \<rparr> = 8 \<and>
   length ''aaa'' = 3"
  by code_simp
section \<open>Properties of buildChunkObjects\<close>

text \<open>
  Claim C6. With \<open>useStableIds\<close> set, the identifiers do not depend on the random
  source: two runs on the same text, source and options give the same sequence of
  identifiers, and the identifier of the chunk of index \<open>i\<close> is the base identifier, a
  colon and the decimal ordinal \<open>i + 1\<close>.
\<close>

theorem stable_ids_deterministic:
  "opt_useStableIds options \<Longrightarrow>
     map co_id (buildChunkObjects uuid1 input src options)
       = map co_id (buildChunkObjects uuid2 input src options) \<and>
     map co_id (buildChunkObjects uuid1 input src options)
       = map (\<lambda>index. baseId_of src options @ '':'' @ digits_of (index + 1))
           [0 ..< length (segments_of input options)]"
proof -
  assume stable: "opt_useStableIds options"
  let ?g = "\<lambda>index. baseId_of src options @ '':'' @ digits_of (index + 1)"
  have ids: "map co_id (buildChunkObjects uuid input src options)
      = map ?g [0 ..< length (segments_of input options)]" for uuid
  proof -
    have "map co_id (buildChunkObjects uuid input src options)
        = map (?g \<circ> fst) (enumerate 0 (segments_of input options))"
      using stable by (simp add: buildChunkObjects_def Let_def split_def comp_def)
    also have "\<dots> = map ?g (map fst (enumerate 0 (segments_of input options)))"
      by (simp only: map_map)
    also have "\<dots> = map ?g [0 ..< length (segments_of input options)]"
      by (simp only: map_fst_enumerate add_0)
    finally show ?thesis .
  qed
  show ?thesis
    unfolding ids by simp
qed

text \<open>
  An instance with three chunks and the base identifier \<open>kb:manual\<close>.
\<close>

theorem stable_ids_deterministic_witness:
  "map co_id (buildChunkObjects (\<lambda>i. ''6f1c'') ''aaaaaaaaa bbbbbbbbb cccccc''
      \<lparr> src_id = ''file-7'', src_type = ''file'', src_name = ''notes.txt'', src_metadata = [] \<rparr>
      \<lparr> opt_chunkSize = Some 10, opt_minChunkSize = Some 5, opt_segments = None,
        opt_baseId = ''kb:manual'', opt_useStableIds = True \<rparr>)
     = [''kb:manual:1'', ''kb:manual:2'', ''kb:manual:3'']"
proof -
  let ?o = "\<lparr> opt_chunkSize = Some 10, opt_minChunkSize = Some 5, opt_segments = None,
        opt_baseId = ''kb:manual'', opt_useStableIds = True \<rparr>"
  let ?s = "\<lparr> src_id = ''file-7'', src_type = ''file'', src_name = ''notes.txt'', src_metadata = [] \<rparr>"
  let ?t = "''aaaaaaaaa bbbbbbbbb cccccc''"
  have u: "opt_useStableIds ?o" by simp
  from stable_ids_deterministic [OF u, of "\<lambda>i. ''6f1c''" ?t ?s "\<lambda>i. ''0000''"]
  have "map co_id (buildChunkObjects (\<lambda>i. ''6f1c'') ?t ?s ?o)
      = map (\<lambda>index. baseId_of ?s ?o @ '':'' @ digits_of (index + 1))
          [0 ..< length (segments_of ?t ?o)]"
    by (rule conjunct2)
  also have "\<dots> = [''kb:manual:1'', ''kb:manual:2'', ''kb:manual:3'']"
    by code_simp
  finally show ?thesis .
qed

section \<open>Properties of the ranking\<close>

lemma doc_id_make_result: "doc_id (make_result tg m) = docId_of m"
  by (simp add: make_result_def Let_def)

lemma result_score_make_result: "result_score (make_result tg m) = score_or_zero m"
  by (simp add: make_result_def result_score_def score_or_zero_def Let_def)



lemma collect_length:
  "int (length results) \<le> bound \<Longrightarrow> int (length (collect bound seen results es)) \<le> bound"
  by (induction bound seen results es rule: collect.induct) auto


lemma collect_origin:
  "r \<in> set (collect bound seen results es) \<Longrightarrow>
     r \<in> set results \<or>
     (doc_id r \<notin> set seen \<and> doc_id r \<noteq> [] \<and>
      (\<exists>e \<in> set es. r = make_result (fst e) (snd e) \<and> snippet_of (metadata_of (snd e)) \<noteq> []))"
proof (induction bound seen results es rule: collect.induct)
  case (1 bound seen results)
  then show ?case by simp
next
  case (2 bound seen results tg m rest)
  then show ?case
    by (auto simp: doc_id_make_result split: if_splits)
qed

lemma collect_distinct:
  "distinct (map doc_id results) \<Longrightarrow> doc_id ` set results \<subseteq> set seen \<Longrightarrow>
     distinct (map doc_id (collect bound seen results es))"
proof (induction bound seen results es rule: collect.induct)
  case (1 bound seen results)
  then show ?case by simp
next
  case (2 bound seen results tg m rest)
  then show ?case
    by (auto simp: doc_id_make_result)
qed

lemma collect_sorted:
  "sorted_wrt (\<ge>) (map result_score results @ map (\<lambda>e. score_or_zero (snd e)) es) \<Longrightarrow>
     sorted_wrt (\<ge>) (map result_score (collect bound seen results es))"
proof (induction bound seen results es rule: collect.induct)
  case (1 bound seen results)
  then show ?case by simp
next
  case (2 bound seen results tg m rest)
  from "2.prems" have skip:
    "sorted_wrt (\<ge>) (map result_score results @ map (\<lambda>e. score_or_zero (snd e)) rest)"
    by (auto simp: sorted_wrt_append)
  from "2.prems" have old: "sorted_wrt (\<ge>) (map result_score results)"
    by (simp add: sorted_wrt_append)
  from "2.prems" have push:
    "sorted_wrt (\<ge>) (map result_score (results @ [make_result tg m])
        @ map (\<lambda>e. score_or_zero (snd e)) rest)"
    by (simp add: result_score_make_result)
  show ?case
    using "2.IH" skip old push by auto
qed

lemma collect_highest:
  assumes "sorted_wrt (\<ge>) (map result_score results @ map (\<lambda>e. score_or_zero (snd e)) es)"
    and "r \<in> set (collect bound seen results es)"
    and "e \<in> set es"
    and "docId_of (snd e) = doc_id r"
    and "snippet_of (metadata_of (snd e)) \<noteq> []"
  shows "score_or_zero (snd e) \<le> result_score r"
  using assms
proof (induction bound seen results es rule: collect.induct)
  case (1 bound seen results)
  then show ?case by simp
next
  case (2 bound seen results tg m rest)
  have old: "score_or_zero (snd e) \<le> result_score r" if "r \<in> set results"
    using that "2.prems"(1,3) by (auto simp: sorted_wrt_append)
  from "2.prems"(1) have skip:
    "sorted_wrt (\<ge>) (map result_score results @ map (\<lambda>e. score_or_zero (snd e)) rest)"
    by (auto simp: sorted_wrt_append)
  from "2.prems"(1) have push:
    "sorted_wrt (\<ge>) (map result_score (results @ [make_result tg m])
        @ map (\<lambda>e. score_or_zero (snd e)) rest)"
    by (simp add: result_score_make_result)
  consider (full) "bound \<le> int (length results)"
    | (blank) "\<not> bound \<le> int (length results)" "snippet_of (metadata_of m) = []"
    | (dup) "\<not> bound \<le> int (length results)" "snippet_of (metadata_of m) \<noteq> []"
        "docId_of m = [] \<or> docId_of m \<in> set seen"
    | (new) "\<not> bound \<le> int (length results)" "snippet_of (metadata_of m) \<noteq> []"
        "\<not> (docId_of m = [] \<or> docId_of m \<in> set seen)"
    by blast
  then show ?case
  proof cases
    case full
    with "2.prems"(2) have "r \<in> set results" by simp
    then show ?thesis by (rule old)
  next
    case blank
    with "2.prems"(2) have r: "r \<in> set (collect bound seen results rest)" by simp
    from blank "2.prems"(3,5) have "e \<in> set rest" by auto
    with "2.IH"(1) blank skip r "2.prems"(4,5) show ?thesis by simp
  next
    case dup
    with "2.prems"(2) have r: "r \<in> set (collect bound seen results rest)" by simp
    show ?thesis
    proof (cases "e = (tg, m)")
      case True
      from collect_origin [OF r] have "r \<in> set results"
        using dup(3) True "2.prems"(4) by auto
      then show ?thesis by (rule old)
    next
      case False
      with "2.prems"(3) have "e \<in> set rest" by simp
      with "2.IH"(2) dup skip r "2.prems"(4,5) show ?thesis by simp
    qed
  next
    case new
    with "2.prems"(2)
    have r: "r \<in> set (collect bound (docId_of m # seen) (results @ [make_result tg m]) rest)"
      by simp
    show ?thesis
    proof (cases "e = (tg, m)")
      case True
      from collect_origin [OF r] True "2.prems"(4)
      have "r \<in> set results \<or> r = make_result tg m" by auto
      then show ?thesis
      proof
        assume "r \<in> set results"
        then show ?thesis by (rule old)
      next
        assume "r = make_result tg m"
        with True show ?thesis by (simp add: result_score_make_result)
      qed
    next
      case False
      with "2.prems"(3) have "e \<in> set rest" by simp
      with "2.IH"(3) new push r "2.prems"(4,5) show ?thesis by simp
    qed
  qed
qed

lemma sorted_sort_by_score:
  "sorted_wrt (\<ge>) (map (\<lambda>e. score_or_zero (snd e)) (sort_by_score pool))"
proof -
  have "sorted (map (\<lambda>e. - score_or_zero (snd e)) (sort_by_score pool))"
    unfolding sort_by_score_def by (rule sorted_sort_key)
  then show ?thesis
    by (simp add: sorted_wrt_map)
qed

lemma set_sort_by_score: "set (sort_by_score pool) = set pool"
  by (simp add: sort_by_score_def)

lemma retrieve_rank:
  "fst (retrieve cfg svc fl tgs q topK)
     = collect (max 1 (limit_of cfg topK)) [] []
         (sort_by_score (found_instances cfg svc fl tgs q topK))"
  by (auto simp: retrieve_def found_instances_def sort_by_score_def Let_def split_def
      split: prod.splits sum.splits list.splits)


lemma embed_trace: "a \<in> set (snd (embedTextsWithOllama svc ts)) \<Longrightarrow> \<exists>t. a = EmbedRequest t"
  by (induction ts) (auto split: embed_response.splits prod.splits sum.splits)

lemma queryTargets_trace:
  "snd (queryTargets svc k v tgs) = map (\<lambda>t. QueryRequest t k v) tgs"
  by (induction tgs) (auto simp: Let_def split: prod.splits)

lemma limit_of_range: "1 \<le> limit_of cfg topK \<and> limit_of cfg topK \<le> 20"
  by (simp add: limit_of_def Let_def)

lemma retrieve_trace:
  "a \<in> set (snd (retrieve cfg svc fl tgs q topK)) \<Longrightarrow>
     (\<exists>t. a = EmbedRequest t) \<or> (\<exists>t v. a = QueryRequest t (limit_of cfg topK) v)"
proof -
  assume a: "a \<in> set (snd (retrieve cfg svc fl tgs q topK))"
  obtain res tr where e: "embedTextsWithOllama svc [trim q] = (res, tr)"
    by (cases "embedTextsWithOllama svc [trim q]")
  have tr: "\<exists>t. b = EmbedRequest t" if "b \<in> set tr" for b
    using embed_trace [of b svc "[trim q]"] that e by simp
  from a e have "a \<in> set tr \<or>
      (\<exists>v. a \<in> set (snd (queryTargets svc (limit_of cfg topK) v tgs)))"
    by (auto simp: retrieve_def Let_def split_def split: if_splits sum.splits list.splits)
  then show ?thesis
    using tr by (auto simp: queryTargets_trace)
qed

text \<open>
  Claim C10. A call returns at most \<open>limit\<close> results, where \<open>limit\<close> is the requested
  \<open>topK\<close> (the configured default when \<open>topK\<close> is absent or \<open>0\<close>) clamped to the range from
  1 to 20, and every vector query that the call issues asks for \<open>limit\<close> neighbours.
\<close>

theorem retrieve_at_most_limit:
  "int (length (fst (retrieve cfg svc fl tgs q topK))) \<le> limit_of cfg topK \<and>
   limit_of cfg topK =
     max 1 (min 20 (case topK of
                      None \<Rightarrow> (if queryTopK cfg \<noteq> 0 then queryTopK cfg else 6)
                    | Some k \<Rightarrow> if k \<noteq> 0 then k
                               else (if queryTopK cfg \<noteq> 0 then queryTopK cfg else 6))) \<and>
   limit_of cfg topK \<le> 20 \<and>
   (\<forall>t k v. QueryRequest t k v \<in> set (snd (retrieve cfg svc fl tgs q topK))
      \<longrightarrow> k = limit_of cfg topK)"
proof -
  have "int (length (fst (retrieve cfg svc fl tgs q topK))) \<le> max 1 (limit_of cfg topK)"
    unfolding retrieve_rank by (rule collect_length) simp
  moreover have "max 1 (limit_of cfg topK) = limit_of cfg topK"
    using limit_of_range [of cfg topK] by simp
  moreover have "\<forall>t k v. QueryRequest t k v \<in> set (snd (retrieve cfg svc fl tgs q topK))
      \<longrightarrow> k = limit_of cfg topK"
    using retrieve_trace [of _ cfg svc fl tgs q topK] by auto
  ultimately show ?thesis
    using limit_of_range [of cfg topK] by (simp add: limit_of_def Let_def)
qed

text \<open>
  An instance: two chunks carry identifiers of the query, the caller asks for one result,
  and one is returned; with \<open>topK = 50\<close> the vector query asks for 20 neighbours.
\<close>

theorem retrieve_at_most_limit_witness:
  "length (fst (retrieve pinecone_on targets_down case_notes [kb_target]
       ''compare CS11111 with CS22222'' (Some 1))) = 1 \<and>
   snd (retrieve pinecone_on targets_down case_notes [kb_target] ''the cat'' (Some 50))
     = [EmbedRequest ''the cat'', QueryRequest kb_target 20 [1, 0]]"
proof -
  let ?r = "retrieve pinecone_on targets_down case_notes [kb_target]
       ''compare CS11111 with CS22222'' (Some 1)"
  have l: "limit_of pinecone_on (Some 1) = 1"
    by (simp add: limit_of_def pinecone_on_def queryTopK_def)
  have ne: "fst ?r \<noteq> []"
    by code_simp
  from retrieve_at_most_limit [of pinecone_on targets_down case_notes "[kb_target]"
      "''compare CS11111 with CS22222''" "Some 1"]
  have "int (length (fst ?r)) \<le> 1"
    unfolding l by simp
  with ne have one: "length (fst ?r) = 1"
    by (cases "fst ?r") simp_all
  have "snd (retrieve pinecone_on targets_down case_notes [kb_target] ''the cat'' (Some 50))
     = [EmbedRequest ''the cat'', QueryRequest kb_target 20 [1, 0]]"
    by code_simp
  with one show ?thesis by simp
qed

text \<open>
  Claim C8. The results of a call are in descending order of the score by which they
  were ranked: the score of the match, \<open>0\<close> for a match that has none, as the comparison
  function of the sort reads it.
\<close>

theorem retrieve_sorted_by_score:
  "sorted_wrt (\<ge>) (map result_score (fst (retrieve cfg svc fl tgs q topK)))"
  unfolding retrieve_rank
  by (rule collect_sorted) (simp add: sorted_sort_by_score)

text \<open>
  An instance: three lexical matches, the one that holds both tokens first.
\<close>

theorem retrieve_sorted_by_score_witness:
  "map result_score (fst (retrieve pinecone_on targets_down case_notes [kb_target]
       ''the cat'' None)) = [49 / 50, 4 / 5, 4 / 5] \<and>
   sorted_wrt (\<ge>) [49 / 50, 4 / 5, 4 / (5 :: rat)]"
proof -
  have v: "map result_score (fst (retrieve pinecone_on targets_down case_notes [kb_target]
       ''the cat'' None)) = [49 / 50, 4 / 5, 4 / 5]"
    by code_simp
  from retrieve_sorted_by_score [of pinecone_on targets_down case_notes "[kb_target]"
      "''the cat''" None]
  show ?thesis unfolding v using v by simp
qed

text \<open>
  Claim C7, as the code has it. No two results of a call carry the same chunk identifier,
  whatever strategies found the chunk, and the result kept for a chunk has a score at
  least that of every instance of the chunk in the pool that carries a snippet. An
  instance whose metadata has no text and no snippet is passed over before the
  identifier is marked as seen, so a lower-scoring instance of the same chunk is kept in
  its place.
\<close>

theorem retrieve_unique_chunks:
  "distinct (map doc_id (fst (retrieve cfg svc fl tgs q topK))) \<and>
   (\<forall>r \<in> set (fst (retrieve cfg svc fl tgs q topK)).
      \<forall>e \<in> set (found_instances cfg svc fl tgs q topK).
        docId_of (snd e) = doc_id r \<and> snippet_of (metadata_of (snd e)) \<noteq> []
          \<longrightarrow> score_or_zero (snd e) \<le> result_score r)"
proof -
  let ?pool = "sort_by_score (found_instances cfg svc fl tgs q topK)"
  have s: "sorted_wrt (\<ge>) (map result_score [] @ map (\<lambda>e. score_or_zero (snd e)) ?pool)"
    by (simp add: sorted_sort_by_score)
  have "distinct (map doc_id (fst (retrieve cfg svc fl tgs q topK)))"
    unfolding retrieve_rank by (rule collect_distinct) simp_all
  moreover have "score_or_zero (snd e) \<le> result_score r"
    if "r \<in> set (fst (retrieve cfg svc fl tgs q topK))"
      and "e \<in> set (found_instances cfg svc fl tgs q topK)"
      and "docId_of (snd e) = doc_id r" and "snippet_of (metadata_of (snd e)) \<noteq> []" for r e
    using collect_highest [OF s, of r _ _ e] that
    by (simp add: retrieve_rank set_sort_by_score)
  ultimately show ?thesis by blast
qed

text \<open>
  An instance: the query names both identifiers, so each of the two chunks is found by
  the exact-identifier pass and by the lexical pass; each is returned once, with the
  score of its exact-identifier instance.
\<close>

theorem retrieve_unique_chunks_witness:
  "map (\<lambda>e. (docId_of (snd e), m_score (snd e)))
     (found_instances pinecone_on targets_down case_notes [kb_target]
        ''compare CS11111 with CS22222'' None)
     = [(''c0'', Some (999 / 1000)), (''c1'', Some (999 / 1000)),
        (''c0'', Some (7 / 10)), (''c1'', Some (7 / 10))] \<and>
   map (\<lambda>r. (doc_id r, Score r))
     (fst (retrieve pinecone_on targets_down case_notes [kb_target]
        ''compare CS11111 with CS22222'' None))
     = [(''c0'', Some (999 / 1000)), (''c1'', Some (999 / 1000))] \<and>
   distinct (map doc_id (fst (retrieve pinecone_on targets_down case_notes [kb_target]
        ''compare CS11111 with CS22222'' None)))"
proof -
  have "map (\<lambda>e. (docId_of (snd e), m_score (snd e)))
     (found_instances pinecone_on targets_down case_notes [kb_target]
        ''compare CS11111 with CS22222'' None)
     = [(''c0'', Some (999 / 1000)), (''c1'', Some (999 / 1000)),
        (''c0'', Some (7 / 10)), (''c1'', Some (7 / 10))]"
    by code_simp
  moreover have "map (\<lambda>r. (doc_id r, Score r))
     (fst (retrieve pinecone_on targets_down case_notes [kb_target]
        ''compare CS11111 with CS22222'' None))
     = [(''c0'', Some (999 / 1000)), (''c1'', Some (999 / 1000))]"
    by code_simp
  moreover from retrieve_unique_chunks [of pinecone_on targets_down case_notes "[kb_target]"
      "''compare CS11111 with CS22222''" None]
  have "distinct (map doc_id (fst (retrieve pinecone_on targets_down case_notes [kb_target]
        ''compare CS11111 with CS22222'' None)))"
    by (rule conjunct1)
  ultimately show ?thesis by simp
qed

text \<open>
  Claim C7 as stated fails: the vector instance of chunk \<open>c0\<close> has the score 1 and no
  text; the lexical instance of \<open>c0\<close> has the score 0.98; the call keeps the lexical one.
\<close>

theorem retrieve_unique_chunks_counterexample:
  "map (\<lambda>e. (docId_of (snd e), m_score (snd e)))
     (found_instances pinecone_on untexted_vector case_notes [kb_target] ''dog'' None)
     = [(''c0'', Some 1), (''c0'', Some (49 / 50))] \<and>
   map (\<lambda>r. (doc_id r, Score r))
     (fst (retrieve pinecone_on untexted_vector case_notes [kb_target] ''dog'' None))
     = [(''c0'', Some (49 / 50))]"
  by code_simp

section \<open>When a service fails\<close>

lemma retrieve_no_embedding:
  assumes "\<forall>v. ollama svc (trim q) \<noteq> Embedding v"
  shows "retrieve cfg svc fl tgs q topK = ([], if trim q = [] then [] else [EmbedRequest (trim q)])"
  using assms
  by (cases "ollama svc (trim q)") (simp_all add: retrieve_def Let_def)

lemma queryTargets_all_fail:
  "\<forall>t \<in> set tgs. \<exists>err. query svc t k v = Inl err \<Longrightarrow> fst (queryTargets svc k v tgs) = []"
  by (induction tgs) (auto simp: Let_def split: prod.splits)

lemma retrieve_targets_fail:
  assumes "ollama svc (trim q) = Embedding v" and "v \<noteq> []" and "trim q \<noteq> []"
    and "\<forall>t \<in> set tgs. \<exists>err. query svc t (limit_of cfg topK) v = Inl err"
  shows "fst (retrieve cfg svc fl tgs q topK)
     = collect (limit_of cfg topK) [] [] (sort_by_score (aggregated_of fl (trim q) []))"
proof -
  have "max 1 (limit_of cfg topK) = limit_of cfg topK"
    by (simp add: limit_of_def Let_def)
  moreover have "found_instances cfg svc fl tgs q topK = aggregated_of fl (trim q) []"
    using assms by (simp add: found_instances_def queryTargets_all_fail)
  ultimately show ?thesis
    by (simp add: retrieve_rank)
qed


text \<open>
  Claim C1, as the code has it. When the embedding service does not answer the query
  with an embedding (the request fails, the status is not OK, or the answer has no
  embedding array), the call returns the empty list: it makes no vector query and runs
  neither the exact-identifier pass nor the lexical pass. The local passes are the
  fallback for the other failure: when the query is embedded and every vector query
  throws, the call ranks the exact-identifier and lexical matches of the local chunks.
\<close>

theorem retrieve_embedding_failure:
  "((\<forall>v. ollama svc (trim q) \<noteq> Embedding v) \<longrightarrow>
      retrieve cfg svc fl tgs q topK
        = ([], if trim q = [] then [] else [EmbedRequest (trim q)])) \<and>
   (ollama svc (trim q) = Embedding v \<and> v \<noteq> [] \<and> trim q \<noteq> [] \<and>
    (\<forall>t \<in> set tgs. \<exists>err. query svc t (limit_of cfg topK) v = Inl err) \<longrightarrow>
      fst (retrieve cfg svc fl tgs q topK)
        = collect (limit_of cfg topK) [] []
            (sort_by_score
               (map local_entry
                  (directCaseMatches fl (map toLowerCase (extractCaseIdsFromText (trim q))))
                @ map local_entry
                    (lexicalMatches fl (map toLowerCase (extractCaseIdsFromText (trim q)))
                       (uniq (match_tokens (toLowerCase (trim q))))))))"
  using retrieve_no_embedding [of svc q cfg fl tgs topK]
    retrieve_targets_fail [of svc q v tgs cfg topK fl]
  by (simp add: aggregated_of_def Let_def)

text \<open>
  An instance of each case, on the same knowledge base and query: with the embedding
  service down nothing is returned; with the query embedded and the vector query
  throwing, the three lexical matches are.
\<close>

theorem retrieve_embedding_failure_witness:
  "retrieve pinecone_on embedding_down case_notes [kb_target] ''the cat'' None
     = ([], [EmbedRequest ''the cat'']) \<and>
   map doc_id (fst (retrieve pinecone_on targets_down case_notes [kb_target] ''the cat'' None))
     = [''c1'', ''c0'', ''kb:chunk:2'']"
proof -
  let ?q = "''the cat''"
  have t: "trim ?q = ?q"
    by code_simp
  have down: "\<forall>v. ollama embedding_down (trim ?q) \<noteq> Embedding v"
    by (simp add: embedding_down_def targets_down_def)
  have up: "ollama targets_down (trim ?q) = Embedding [1, 0] \<and> [1, 0 :: rat] \<noteq> [] \<and> trim ?q \<noteq> [] \<and>
      (\<forall>t \<in> set [kb_target]. \<exists>err. query targets_down t (limit_of pinecone_on None) [1, 0] = Inl err)"
    unfolding t by (simp add: targets_down_def)
  have ranked: "map doc_id (collect (limit_of pinecone_on None) [] []
            (sort_by_score
               (map local_entry
                  (directCaseMatches case_notes (map toLowerCase (extractCaseIdsFromText (trim ?q))))
                @ map local_entry
                    (lexicalMatches case_notes (map toLowerCase (extractCaseIdsFromText (trim ?q)))
                       (uniq (match_tokens (toLowerCase (trim ?q))))))))
      = [''c1'', ''c0'', ''kb:chunk:2'']"
    by code_simp
  from retrieve_embedding_failure [of embedding_down ?q pinecone_on case_notes "[kb_target]" None]
    down
  have a: "retrieve pinecone_on embedding_down case_notes [kb_target] ?q None
     = ([], [EmbedRequest ?q])"
    unfolding t by simp
  from retrieve_embedding_failure [of targets_down ?q pinecone_on case_notes "[kb_target]" None
      "[1, 0]"] up
  have "fst (retrieve pinecone_on targets_down case_notes [kb_target] ?q None)
     = collect (limit_of pinecone_on None) [] []
            (sort_by_score
               (map local_entry
                  (directCaseMatches case_notes (map toLowerCase (extractCaseIdsFromText (trim ?q))))
                @ map local_entry
                    (lexicalMatches case_notes (map toLowerCase (extractCaseIdsFromText (trim ?q)))
                       (uniq (match_tokens (toLowerCase (trim ?q)))))))"
    by blast
  with ranked a show ?thesis by simp
qed

text \<open>
  Claim C1 as stated fails: the embedding service answers with status 500, the local
  chunks hold three lexical matches of the query, and the call returns the empty list.
\<close>

theorem retrieve_embedding_failure_counterexample:
  "ollama embedding_down ''the cat'' = NotOk 500 ''unavailable'' \<and>
   map m_id (lexicalMatches case_notes [] [''the'', ''cat'']) = [''c0'', ''c1'', ''kb:chunk:2''] \<and>
   fst (retrieve pinecone_on embedding_down case_notes [kb_target] ''the cat'' None) = []"
  by code_simp

section \<open>The lexical pass\<close>

lemma forEach_push_foldl:
  "foldl (\<lambda>acc x. case f x of None \<Rightarrow> acc | Some y \<Rightarrow> acc @ [y]) acc xs
     = acc @ List.map_filter f xs"
  by (induction xs arbitrary: acc) (auto simp: List.map_filter_simps split: option.splits)

lemma forEach_push_map_filter: "forEach_push f xs = List.map_filter f xs"
  by (simp add: forEach_push_def forEach_push_foldl)

lemma is_token_char_alnum: "is_lower_alnum c \<Longrightarrow> is_token_char c"
  by (simp add: is_token_char_def)

lemma match_tokens_shape:
  "token \<in> set (match_tokens s) \<Longrightarrow>
     3 \<le> length token \<and> is_lower_alnum (hd token) \<and> (\<forall>c \<in> set token. is_token_char c)"
proof (induction s rule: match_tokens.induct)
  case 1
  then show ?case by simp
next
  case (2 c cs)
  then show ?case
    by (auto simp: is_token_char_alnum split: if_splits dest: set_takeWhileD)
qed

lemma set_uniq_aux:
  "set (foldl (\<lambda>acc x. if x \<in> set acc then acc else acc @ [x]) acc xs) = set acc \<union> set xs"
  by (induction xs arbitrary: acc) auto

lemma set_uniq: "set (uniq xs) = set xs"
  by (simp add: uniq_def set_uniq_aux)

lemma searchTokens_of_tokens:
  "searchTokens_of (uniq (match_tokens s)) = uniq (match_tokens s)"
proof -
  have "\<forall>token \<in> set (uniq (match_tokens s)). 2 < length token"
    using match_tokens_shape [of _ s] by (fastforce simp: set_uniq)
  then have "filter (\<lambda>token. 2 < length token) (uniq (match_tokens s)) = uniq (match_tokens s)"
    by (simp add: filter_id_conv)
  then show ?thesis
    by (simp add: searchTokens_of_def Let_def)
qed

lemma map_filter_as_map:
  assumes "\<And>x. x \<in> set xs \<Longrightarrow> f x = (if P x then Some (g x) else None)"
  shows "List.map_filter f xs = map g (filter P xs)"
  using assms by (induction xs) (simp_all add: List.map_filter_simps)

lemma lexicalMatch_view:
  "map_option (\<lambda>m. (m_id m, m_score m, md_origin (metadata_of m)))
     (lexicalMatch fid ids tokens (idx, chunk))
   = (if lexical_eligible ids tokens chunk
      then Some (chunkId_of fid idx chunk,
                 Some (lexicalScore (length (lexical_hits tokens chunk)) (length tokens)),
                 or_str (md_origin (chunkMetadata_of chunk)) ''lexical'')
      else None)"
  by (auto simp: lexicalMatch_def lexical_eligible_def lexical_hits_def metadata_of_def Let_def)

lemma map_map_filter: "map h (List.map_filter f xs) = List.map_filter (map_option h \<circ> f) xs"
  by (induction xs) (auto simp: List.map_filter_simps split: option.splits)

lemma lexicalMatches_view:
  "map (\<lambda>m. (m_id m, m_score m, md_origin (metadata_of m))) (lexicalMatches fl ids tokens)
   = map (\<lambda>(idx, chunk).
            (chunkId_of (fl_id fl) idx chunk,
             Some (lexicalScore (length (lexical_hits (searchTokens_of tokens) chunk))
                     (length (searchTokens_of tokens))),
             or_str (md_origin (chunkMetadata_of chunk)) ''lexical''))
       (filter (\<lambda>(idx, chunk). tokens \<noteq> [] \<and> lexical_eligible ids (searchTokens_of tokens) chunk)
          (enumerate 0 (fl_knowledgeChunks fl)))"
proof (cases "tokens \<noteq> [] \<and> fl_knowledgeChunks fl \<noteq> []")
  case True
  then have "map (\<lambda>m. (m_id m, m_score m, md_origin (metadata_of m))) (lexicalMatches fl ids tokens)
      = List.map_filter (map_option (\<lambda>m. (m_id m, m_score m, md_origin (metadata_of m)))
          \<circ> lexicalMatch (fl_id fl) ids (searchTokens_of tokens)) (enumerate 0 (fl_knowledgeChunks fl))"
    by (simp add: lexicalMatches_def forEach_push_map_filter map_map_filter)
  also have "\<dots> = map (\<lambda>(idx, chunk).
            (chunkId_of (fl_id fl) idx chunk,
             Some (lexicalScore (length (lexical_hits (searchTokens_of tokens) chunk))
                     (length (searchTokens_of tokens))),
             or_str (md_origin (chunkMetadata_of chunk)) ''lexical''))
       (filter (\<lambda>(idx, chunk). tokens \<noteq> [] \<and> lexical_eligible ids (searchTokens_of tokens) chunk)
          (enumerate 0 (fl_knowledgeChunks fl)))"
  proof (rule map_filter_as_map)
    fix x :: "nat \<times> knowledge_chunk"
    obtain idx chunk where x: "x = (idx, chunk)" by (cases x)
    show "(map_option (\<lambda>m. (m_id m, m_score m, md_origin (metadata_of m)))
          \<circ> lexicalMatch (fl_id fl) ids (searchTokens_of tokens)) x
        = (if (case x of (idx, chunk) \<Rightarrow>
                 tokens \<noteq> [] \<and> lexical_eligible ids (searchTokens_of tokens) chunk)
           then Some (case x of (idx, chunk) \<Rightarrow>
              (chunkId_of (fl_id fl) idx chunk,
               Some (lexicalScore (length (lexical_hits (searchTokens_of tokens) chunk))
                       (length (searchTokens_of tokens))),
               or_str (md_origin (chunkMetadata_of chunk)) ''lexical''))
           else None)"
      unfolding x comp_apply lexicalMatch_view using True by simp
  qed
  finally show ?thesis .
next
  case False
  then show ?thesis
    by (auto simp: lexicalMatches_def)
qed


text \<open>
  Claim C2, as the code has it. The tokens of the lexical pass are the distinct matches
  of \<open>[a-z0-9][a-z0-9-]{2,}\<close> in the lower-cased query: three or more characters, letters,
  digits and hyphens, and no stop word is removed from them. The pass gives a match to
  every chunk whose text is not empty and contains a token, and, when the query holds
  identifiers, contains one of those too. The score of the match is
  \<open>min(0.98, 0.6 + 0.4 * (hits / tokens))\<close>, and its origin is \<open>lexical\<close> unless the
  metadata of the chunk has an origin of its own.
\<close>

theorem lexical_pass_scores:
  "(\<forall>token \<in> set (uniq (match_tokens (toLowerCase q))).
      3 \<le> length token \<and> (\<forall>c \<in> set token. is_token_char c)) \<and>
   map (\<lambda>m. (m_id m, m_score m, md_origin (metadata_of m)))
     (lexicalMatches fl ids (uniq (match_tokens (toLowerCase q))))
   = map (\<lambda>(idx, chunk).
            (chunkId_of (fl_id fl) idx chunk,
             Some (min (98 / 100)
                     (6 / 10 +
                      (of_nat (length (lexical_hits (uniq (match_tokens (toLowerCase q))) chunk))
                       / of_nat (length (uniq (match_tokens (toLowerCase q))))) * (4 / 10))),
             or_str (md_origin (chunkMetadata_of chunk)) ''lexical''))
       (filter (\<lambda>(idx, chunk). lexical_eligible ids (uniq (match_tokens (toLowerCase q))) chunk)
          (enumerate 0 (fl_knowledgeChunks fl)))"
proof -
  let ?tokens = "uniq (match_tokens (toLowerCase q))"
  have shape: "\<forall>token \<in> set ?tokens. 3 \<le> length token \<and> (\<forall>c \<in> set token. is_token_char c)"
    using match_tokens_shape [of _ "toLowerCase q"] by (simp add: set_uniq)
  have "lexical_eligible ids ?tokens chunk \<Longrightarrow> ?tokens \<noteq> []" for chunk
    by (auto simp: lexical_eligible_def lexical_hits_def)
  then have "(\<lambda>(idx :: nat, chunk). ?tokens \<noteq> [] \<and> lexical_eligible ids ?tokens chunk)
      = (\<lambda>(idx, chunk). lexical_eligible ids ?tokens chunk)"
    by auto
  with lexicalMatches_view [of fl ids ?tokens] shape show ?thesis
    by (simp add: searchTokens_of_tokens lexicalScore_def)
qed

text \<open>
  An instance: the query \<open>the cat\<close> has the tokens \<open>the\<close> and \<open>cat\<close>; the second chunk
  holds both, the other two hold \<open>the\<close>.
\<close>

theorem lexical_pass_scores_witness:
  "map (\<lambda>m. (m_id m, m_score m, md_origin (metadata_of m)))
     (lexicalMatches case_notes [] (uniq (match_tokens (toLowerCase ''the cat''))))
   = [(''c0'', Some (4 / 5), ''lexical''), (''c1'', Some (49 / 50), ''lexical''),
      (''kb:chunk:2'', Some (4 / 5), ''lexical'')]"
proof -
  let ?tokens = "uniq (match_tokens (toLowerCase ''the cat''))"
  have "map (\<lambda>(idx, chunk).
            (chunkId_of (fl_id case_notes) idx chunk,
             Some (min (98 / 100 :: rat)
                     (6 / 10 +
                      (of_nat (length (lexical_hits ?tokens chunk))
                       / of_nat (length ?tokens)) * (4 / 10))),
             or_str (md_origin (chunkMetadata_of chunk)) ''lexical''))
       (filter (\<lambda>(idx, chunk). lexical_eligible [] ?tokens chunk)
          (enumerate 0 (fl_knowledgeChunks case_notes)))
     = [(''c0'', Some (4 / 5), ''lexical''), (''c1'', Some (49 / 50), ''lexical''),
        (''kb:chunk:2'', Some (4 / 5), ''lexical'')]"
    by code_simp
  with lexical_pass_scores [of "''the cat''" case_notes "[]"] show ?thesis
    by simp
qed

text \<open>
  Claim C2 as stated fails: \<open>the\<close> is a stop word, and the first chunk, which does not
  contain \<open>cat\<close>, the one token that is not a stop word, has a lexical match with the
  score 0.8.
\<close>

theorem lexical_pass_scores_counterexample:
  "uniq (match_tokens (toLowerCase ''the cat'')) = [''the'', ''cat''] \<and>
   ''the'' \<in> set stopWords \<and>
   chunkTextRaw (hd (fl_knowledgeChunks case_notes)) = ''CS11111 alpha the dog'' \<and>
   \<not> includes_str (toLowerCase ''CS11111 alpha the dog'') ''cat'' \<and>
   map (\<lambda>m. (m_id m, m_score m))
     (lexicalMatches case_notes [] (uniq (match_tokens (toLowerCase ''the cat''))))
   = [(''c0'', Some (4 / 5)), (''c1'', Some (49 / 50)), (''kb:chunk:2'', Some (4 / 5))]"
  by code_simp

section \<open>The exact-identifier pass\<close>




























section \<open>Properties of the synchroniser\<close>




end
